theory Spec2Isabelle
  imports Complex_Main
begin

section \<open>Turn.js: the per-tick transition of the racing game\<close>

text \<open>
  The embedding follows \<^verbatim>\<open>src/common/Turn.js\<close>. JavaScript numbers that carry
  positions, angles, times and the countdown are idealised as \<^typ>\<open>real\<close>; slot indices
  are \<^typ>\<open>nat\<close>; lap counts and the lap-time index are \<^typ>\<open>int\<close>.
  A sparse array \<^verbatim>\<open>Array<?T>\<close> is a list of options: a hole, \<^verbatim>\<open>undefined\<close> and
  \<^verbatim>\<open>null\<close> are all \<open>None\<close>.
\<close>

subsection \<open>Sparse, slot-indexed arrays\<close>

text \<open>\<^verbatim>\<open>xs[i]\<close>: reading past the end gives \<^verbatim>\<open>undefined\<close>.\<close>

definition slot_get :: "'a option list \<Rightarrow> nat \<Rightarrow> 'a option" where
  "slot_get xs i = (if i < length xs then xs ! i else None)"

text \<open>\<^verbatim>\<open>xs[i] = v\<close>: writing past the end extends the array with holes.\<close>

definition slot_set :: "'a option list \<Rightarrow> nat \<Rightarrow> 'a \<Rightarrow> 'a option list" where
  "slot_set xs i v =
     (if i < length xs then xs[i := Some v]
      else xs @ replicate (i - length xs) None @ [Some v])"

text \<open>\<^verbatim>\<open>delete xs[i]\<close>: leaves a hole, the length is unchanged.\<close>

definition slot_delete :: "'a option list \<Rightarrow> nat \<Rightarrow> 'a option list" where
  "slot_delete xs i = (if i < length xs then xs[i := None] else xs)"

subsection \<open>Data model\<close>

type_synonym vec = "real \<times> real"

datatype control = Gas | Boost | LeanL | LeanR | TurnL | TurnR

record GameEvent =
  ev_type :: control
  ev_val :: bool

record PlayerInput =
  gas :: bool
  boost :: bool
  leanL :: bool
  leanR :: bool
  turnL :: bool
  turnR :: bool

text \<open>
  An entry of \<^verbatim>\<open>laptimes\<close> is a JavaScript number; \<open>None\<close> stands for a value that is
  not a number (a hole, \<^verbatim>\<open>undefined\<close> or \<^verbatim>\<open>NaN\<close>), which \<^verbatim>\<open>+=\<close> keeps as \<^verbatim>\<open>NaN\<close>.
\<close>

record Ship =
  position :: vec
  velocity :: vec
  angle :: real
  username :: string
  color :: string
  input :: PlayerInput
  checkpoint :: real
  lap :: int
  currentLaptime :: int
  laptimes :: "real option list"

datatype sev_kind = SPAWN_PLAYER | DESTROY_PLAYER | OTHER_EVENT

record ServerEvent =
  sev_type :: sev_kind
  sev_val :: nat
  sev_username :: string
  sev_color :: string

datatype game_state = IN_PROGRESS | FINISH_COUNTDOWN | RESULTS_SCREEN

record Turn =
  ships :: "Ship option list"
  events :: "GameEvent list option list"
  serverEvents :: "ServerEvent list"
  state :: game_state
  counter :: real

subsection \<open>getFreeShipSlot\<close>

text \<open>
  \<^verbatim>\<open>reservedSlots\<close> is the set of slots named by the queued SPAWN_PLAYER events.
\<close>

definition reservedSlots :: "ServerEvent list \<Rightarrow> nat list" where
  "reservedSlots sevs = map sev_val (filter (\<lambda>sev. sev_type sev = SPAWN_PLAYER) sevs)"

definition slot_taken :: "Ship option list \<Rightarrow> nat list \<Rightarrow> nat \<Rightarrow> bool" where
  "slot_taken shs reserved n \<longleftrightarrow> slot_get shs n \<noteq> None \<or> n \<in> set reserved"

definition slot_bound :: "Ship option list \<Rightarrow> nat list \<Rightarrow> nat" where
  "slot_bound shs reserved = max (length shs) (Suc (fold max reserved 0))"

lemma fold_max_ge: "(n::nat) \<in> set xs \<Longrightarrow> n \<le> fold max xs a"
proof (induction xs arbitrary: a)
  case Nil
  then show ?case by simp
next
  case (Cons x xs)
  have mono: "\<And>b. b \<le> fold max xs b"
  proof -
    fix b :: nat
    show "b \<le> fold max xs b"
    proof (induction xs arbitrary: b)
      case Nil
      show ?case by simp
    next
      case (Cons y ys)
      have "b \<le> max y b" by simp
      also have "\<dots> \<le> fold max ys (max y b)" by (rule Cons.IH)
      finally show ?case by simp
    qed
  qed
  show ?case
  proof (cases "n = x")
    case True
    have "x \<le> max x a" by simp
    also have "\<dots> \<le> fold max xs (max x a)" by (rule mono)
    finally show ?thesis using True by simp
  next
    case False
    with Cons.prems have "n \<in> set xs" by simp
    then show ?thesis using Cons.IH by simp
  qed
qed

lemma slot_taken_bound: "slot_taken shs reserved n \<Longrightarrow> n < slot_bound shs reserved"
  unfolding slot_taken_def slot_bound_def slot_get_def
  by (auto split: if_splits dest: fold_max_ge [where a = 0] simp: less_Suc_eq_le max_def)

text \<open>The loop \<^verbatim>\<open>while (this.ships[freeSlot] != null || reservedSlots[freeSlot]) ++freeSlot\<close>.\<close>

function free_slot_from :: "Ship option list \<Rightarrow> nat list \<Rightarrow> nat \<Rightarrow> nat" where
  "free_slot_from shs reserved freeSlot =
     (if slot_taken shs reserved freeSlot
      then free_slot_from shs reserved (Suc freeSlot)
      else freeSlot)"
  by pat_completeness auto
termination
proof (relation "measure (\<lambda>(shs, reserved, n). slot_bound shs reserved - n)")
  show "wf (measure (\<lambda>(shs, reserved, n). slot_bound shs reserved - n))"
    by simp
next
  fix shs reserved freeSlot
  assume "slot_taken shs reserved freeSlot"
  then have "freeSlot < slot_bound shs reserved"
    by (rule slot_taken_bound)
  then show "((shs, reserved, Suc freeSlot), (shs, reserved, freeSlot))
      \<in> measure (\<lambda>(shs, reserved, n). slot_bound shs reserved - n)"
    by simp
qed

declare free_slot_from.simps [simp del]

definition getFreeShipSlot :: "Turn \<Rightarrow> nat" where
  "getFreeShipSlot t = free_slot_from (ships t) (reservedSlots (serverEvents t)) 0"

subsection \<open>addEvents\<close>

text \<open>
  The backward scan \<^verbatim>\<open>for (i = existingEvents.length - 1; i >= 0; --i)\<close> stops at the
  first event of the same type; it pushes when the values differ, and reports whether
  an event of that type was found.
\<close>

fun scan_related :: "GameEvent list \<Rightarrow> GameEvent \<Rightarrow> bool \<times> bool" where
  "scan_related [] ev = (False, False)"
| "scan_related (exEv # older) ev =
     (if ev_type exEv = ev_type ev then (True, ev_val exEv \<noteq> ev_val ev)
      else scan_related older ev)"

text \<open>One iteration of \<^verbatim>\<open>evs.forEach\<close>, on the pair (existingEvents, changed).\<close>

definition add_event :: "GameEvent list \<times> bool \<Rightarrow> GameEvent \<Rightarrow> GameEvent list \<times> bool" where
  "add_event acc ev =
     (let existingEvents = fst acc; changed = snd acc;
          (foundRelated, differs) = scan_related (rev existingEvents) ev;
          acc1 = (if foundRelated \<and> differs then (existingEvents @ [ev], True)
                  else (existingEvents, changed))
      in if \<not> foundRelated then (fst acc1 @ [ev], True) else acc1)"

definition addEvents :: "nat \<Rightarrow> GameEvent list \<Rightarrow> Turn \<Rightarrow> bool \<times> Turn" where
  "addEvents shipId evs t =
     (let existingEvents = (case slot_get (events t) shipId of None \<Rightarrow> [] | Some q \<Rightarrow> q);
          (existingEvents', changed) = foldl add_event (existingEvents, False) evs
      in (changed, t\<lparr>events := slot_set (events t) shipId existingEvents'\<rparr>))"

text \<open>\<^verbatim>\<open>addServerEvent\<close> with an array argument.\<close>

definition addServerEvent :: "ServerEvent list \<Rightarrow> Turn \<Rightarrow> bool \<times> Turn" where
  "addServerEvent evs t = (True, t\<lparr>serverEvents := serverEvents t @ evs\<rparr>)"

subsection \<open>PlayerInput (collaborator, \<^verbatim>\<open>PlayerInput.js\<close>)\<close>

text \<open>
  Modelled from the spec: \<^verbatim>\<open>new PlayerInput()\<close>, the constructor of the class defined
  in \<^verbatim>\<open>PlayerInput.js\<close>. The spec calls its value the fresh zero input state, the
  all-false state of the six control flags.
\<close>

definition new_PlayerInput :: PlayerInput where
  "new_PlayerInput =
     \<lparr>gas = False, boost = False, leanL = False, leanR = False, turnL = False, turnR = False\<rparr>"

text \<open>
  Modelled from the spec: \<^verbatim>\<open>new PlayerInput(input)\<close>, the same constructor given an
  input. The spec derives the working input from the vessel's last input: a copy.
\<close>

definition copy_PlayerInput :: "PlayerInput \<Rightarrow> PlayerInput" where
  "copy_PlayerInput inp = inp"

text \<open>
  Modelled from the spec: \<^verbatim>\<open>PlayerInput.applyPlayerEvent\<close>, the rule that folds a
  queued input event into the flags. The spec describes an input event as a level-set
  instruction on the flag named by its type (``turnLeft := true'').
\<close>

definition applyPlayerEvent :: "PlayerInput \<Rightarrow> GameEvent \<Rightarrow> PlayerInput" where
  "applyPlayerEvent inp ev =
     (case ev_type ev of
        Gas \<Rightarrow> inp\<lparr>gas := ev_val ev\<rparr>
      | Boost \<Rightarrow> inp\<lparr>boost := ev_val ev\<rparr>
      | LeanL \<Rightarrow> inp\<lparr>leanL := ev_val ev\<rparr>
      | LeanR \<Rightarrow> inp\<lparr>leanR := ev_val ev\<rparr>
      | TurnL \<Rightarrow> inp\<lparr>turnL := ev_val ev\<rparr>
      | TurnR \<Rightarrow> inp\<lparr>turnR := ev_val ev\<rparr>)"

subsection \<open>Bodies, the track grid and the external collaborators\<close>

text \<open>
  The fields of a p2 body that \<^verbatim>\<open>evolve\<close> reads or writes. The solver's other
  bookkeeping (identifier, world reference, interpolated and previous poses, sleep
  timers) stays inside the engine.
\<close>

record Body =
  body_position :: vec
  body_velocity :: vec
  body_angle :: real
  body_force :: vec
  body_angularForce :: real

text \<open>
  A value stored in a cell of the track grid: a number or a string. Any other falsy
  value (\<^verbatim>\<open>undefined\<close>, \<^verbatim>\<open>null\<close>) reads as an absent cell.
\<close>

datatype cellval = CNum real | CStr string

text \<open>\<^verbatim>\<open>map[ci]\<close> is a row or absent; \<^verbatim>\<open>row[cj]\<close> is a value or absent.\<close>

type_synonym Track = "int \<Rightarrow> (int \<Rightarrow> cellval option) option"

text \<open>
  What \<^verbatim>\<open>Turn.js\<close> takes from outside: the finish predicate of \<^verbatim>\<open>Ship.js\<close>, the
  engine's \<^verbatim>\<open>applyForceLocal\<close> and \<^verbatim>\<open>world.step\<close> (the new value of the body in
  slot \<open>i\<close>, given the elapsed seconds and the whole pool), JavaScript's
  \<^verbatim>\<open>Number\<close> on strings (\<open>None\<close> for \<^verbatim>\<open>NaN\<close>), and the constants of
  \<^verbatim>\<open>constants.js\<close>. They are parameters: nothing is assumed about them.
\<close>

record collab =
  hasFinishedRace :: "Ship \<Rightarrow> bool"
  applyForceLocal :: "Body \<Rightarrow> vec \<Rightarrow> Body"
  world_step :: "real \<Rightarrow> Body option list \<Rightarrow> nat \<Rightarrow> Body \<Rightarrow> Body"
  string_to_Number :: "string \<Rightarrow> real option"
  FORCE :: real
  CELL_EDGE :: real
  FINISH_COUNTDOWN_S :: real
  RESULTS_SCREEN_S :: real

datatype error = TypeError

subsection \<open>resetBody and positionForShipId\<close>

text \<open>\<^verbatim>\<open>new p2.Body({mass: 5, position, angle, fixedRotation: true})\<close>, at rest.\<close>

definition new_Body :: "vec \<Rightarrow> real \<Rightarrow> Body" where
  "new_Body pos ang =
     \<lparr>body_position = pos, body_velocity = (0, 0), body_angle = ang,
      body_force = (0, 0), body_angularForce = 0\<rparr>"

definition resetBody :: "Body \<Rightarrow> Body" where
  "resetBody body =
     body\<lparr>body_position := (0, 0), body_velocity := (0, 0), body_angle := 0,
          body_force := (0, 0), body_angularForce := 0\<rparr>"

definition positionForShipId :: "nat \<Rightarrow> vec" where
  "positionForShipId shipId =
     (let dx = real shipId * 3;
          dy = (if shipId mod 2 = 0 then 0 else - 4)
      in (98 + dx, 52 + dy))"

subsection \<open>evolve: creating and resetting bodies\<close>

text \<open>One iteration of the first loop of \<^verbatim>\<open>evolve\<close>.\<close>

definition ensure_body :: "Ship option list \<Rightarrow> Body option list \<Rightarrow> nat \<Rightarrow> Body option list" where
  "ensure_body shs bodies i =
     (case slot_get shs i of
        None \<Rightarrow> bodies
      | Some ship \<Rightarrow>
          (case slot_get bodies i of
             None \<Rightarrow> slot_set bodies i (new_Body (102, 52) (- pi / 2))
           | Some body \<Rightarrow> slot_set bodies i (resetBody body)))"

definition create_bodies :: "Ship option list \<Rightarrow> Body option list \<Rightarrow> Body option list" where
  "create_bodies shs bodies =
     foldl (ensure_body shs) bodies [0..<max (length shs) (length bodies)]"

subsection \<open>evolve: consuming server events\<close>

text \<open>The vessel built by \<^verbatim>\<open>new Ship({...})\<close> in the SPAWN_PLAYER case.\<close>

definition spawn_Ship :: "Body \<Rightarrow> ServerEvent \<Rightarrow> Ship" where
  "spawn_Ship body sev =
     \<lparr>position = body_position body, velocity = body_velocity body, angle = body_angle body,
      username = sev_username sev, color = sev_color sev, input = new_PlayerInput,
      checkpoint = 1, lap = 0, currentLaptime = 0, laptimes = [Some 0]\<rparr>"

text \<open>One iteration of \<^verbatim>\<open>this.serverEvents.forEach\<close>, on the pair (ships, bodies).\<close>

definition consume_server_event ::
  "Ship option list \<times> Body option list \<Rightarrow> ServerEvent \<Rightarrow> Ship option list \<times> Body option list" where
  "consume_server_event acc sev =
     (let shs = fst acc; bodies = snd acc; shipId = sev_val sev
      in case sev_type sev of
           SPAWN_PLAYER \<Rightarrow>
             (let body = new_Body (positionForShipId shipId) (- pi / 2)
              in (slot_set shs shipId (spawn_Ship body sev), slot_set bodies shipId body))
         | DESTROY_PLAYER \<Rightarrow> (slot_delete shs shipId, bodies)
         | OTHER_EVENT \<Rightarrow> (shs, bodies))"

definition consume_server_events ::
  "Ship option list \<times> Body option list \<Rightarrow> ServerEvent list \<Rightarrow> Ship option list \<times> Body option list" where
  "consume_server_events acc sevs = foldl consume_server_event acc sevs"

subsection \<open>evolve: applying player inputs\<close>

definition scale_vec :: "real \<Rightarrow> vec \<Rightarrow> vec" where
  "scale_vec k v = (k * fst v, k * snd v)"

text \<open>
  The body of \<^verbatim>\<open>ships.forEach((ship, i) => ...)\<close> for one occupied slot, in its
  parts. First the vessel's pose is copied into the body and the forces are zeroed.
\<close>

definition sync_body :: "Ship \<Rightarrow> Body \<Rightarrow> Body" where
  "sync_body ship body =
     body\<lparr>body_position := position ship, body_velocity := velocity ship,
          body_angle := angle ship, body_force := (0, 0), body_angularForce := 0\<rparr>"

text \<open>Turn left, turn right: the heading jumps by a quarter turn.\<close>

definition steer :: "PlayerInput \<Rightarrow> Body \<Rightarrow> Body" where
  "steer inp body =
     (let body2 = (if turnL inp then body\<lparr>body_angle := body_angle body + - pi / 2\<rparr>
                   else body)
      in if turnR inp then body2\<lparr>body_angle := body_angle body2 + pi / 2\<rparr> else body2)"

text \<open>The main thruster and the two leaning thrusters.\<close>

definition thrust :: "collab \<Rightarrow> PlayerInput \<Rightarrow> Body \<Rightarrow> Body" where
  "thrust c inp body =
     (let boost_factor = (if gas inp then (if boost inp then 2 else 1) else 0);
          body4 = applyForceLocal c body (0, - FORCE c * boost_factor);
          body5 = (if leanR inp then applyForceLocal c body4 (FORCE c, 0) else body4)
      in if leanL inp then applyForceLocal c body5 (- FORCE c, 0) else body5)"

text \<open>Air drag: \<^verbatim>\<open>vec2.scale(body.velocity, body.velocity, 0.99)\<close>.\<close>

definition air_drag :: "Body \<Rightarrow> Body" where
  "air_drag body = body\<lparr>body_velocity := scale_vec 0.99 (body_velocity body)\<rparr>"

text \<open>
  The working input starts as \<^verbatim>\<open>new PlayerInput(ship.input)\<close> with both turn flags
  cleared; the vessel and its body after the iteration are returned.
\<close>

definition apply_input ::
  "collab \<Rightarrow> game_state \<Rightarrow> GameEvent list \<Rightarrow> Ship \<Rightarrow> Body \<Rightarrow> Ship \<times> Body" where
  "apply_input c st playerEvents ship body =
     (let body1 = sync_body ship body;
          input0 = (copy_PlayerInput (input ship))\<lparr>turnL := False, turnR := False\<rparr>
      in if \<not> hasFinishedRace c ship \<and> (st = IN_PROGRESS \<or> st = FINISH_COUNTDOWN)
         then
           (let inp = foldl applyPlayerEvent input0 playerEvents
            in (ship\<lparr>input := inp\<rparr>, air_drag (thrust c inp (steer inp body1))))
         else (ship\<lparr>input := new_PlayerInput\<rparr>, air_drag body1))"

text \<open>\<^verbatim>\<open>this.events[i] || []\<close>.\<close>

definition player_events :: "GameEvent list option list \<Rightarrow> nat \<Rightarrow> GameEvent list" where
  "player_events evq i = (case slot_get evq i of None \<Rightarrow> [] | Some q \<Rightarrow> q)"

text \<open>
  \<^verbatim>\<open>ships.forEach\<close> over the slot indices. A vessel whose slot has no body makes
  \<^verbatim>\<open>vec2.copy(body.position, ...)\<close> read a property of \<^verbatim>\<open>undefined\<close>: a TypeError.
\<close>

fun apply_inputs ::
  "collab \<Rightarrow> game_state \<Rightarrow> GameEvent list option list \<Rightarrow> Ship option list \<Rightarrow>
   Body option list \<Rightarrow> nat list \<Rightarrow> error + (Ship option list \<times> Body option list)" where
  "apply_inputs c st evq shs bodies [] = Inr (shs, bodies)"
| "apply_inputs c st evq shs bodies (i # rest) =
     (case slot_get shs i of
        None \<Rightarrow> apply_inputs c st evq shs bodies rest
      | Some ship \<Rightarrow>
          (case slot_get bodies i of
             None \<Rightarrow> Inl TypeError
           | Some body \<Rightarrow>
               (let r = apply_input c st (player_events evq i) ship body
                in apply_inputs c st evq (slot_set shs i (fst r)) (slot_set bodies i (snd r)) rest)))"

subsection \<open>evolve: the physics step\<close>

text \<open>
  \<^verbatim>\<open>world.step(dt / 1000)\<close> mutates the bodies in place: the pool keeps its length
  and its holes, every body gets the value the engine computes for it.
\<close>

definition step_bodies :: "collab \<Rightarrow> real \<Rightarrow> Body option list \<Rightarrow> Body option list" where
  "step_bodies c dt bodies =
     map (\<lambda>(i, b). map_option (world_step c (dt / 1000) bodies i) b) (enumerate 0 bodies)"

subsection \<open>evolve: checkpoint and lap detection\<close>

text \<open>
  \<^verbatim>\<open>Math.floor((p + C.CELL_EDGE / 2) / C.CELL_EDGE)\<close>. With a zero cell edge the
  quotient is infinite or \<^verbatim>\<open>NaN\<close> in JavaScript and indexes nothing; HOL's \<open>x / 0 = 0\<close>
  would index row 0 instead, so that case is written out.
\<close>

definition cell_index :: "collab \<Rightarrow> real \<Rightarrow> int option" where
  "cell_index c p =
     (if CELL_EDGE c = 0 then None else Some \<lfloor>(p + CELL_EDGE c / 2) / CELL_EDGE c\<rfloor>)"

text \<open>\<^verbatim>\<open>(map[ci] || {})[cj]\<close>: the stored value, or \<^verbatim>\<open>undefined\<close>.\<close>

definition lookup_cell :: "Track \<Rightarrow> int option \<Rightarrow> int option \<Rightarrow> cellval option" where
  "lookup_cell track ci cj =
     (case ci of
        None \<Rightarrow> None
      | Some i \<Rightarrow>
          (case track i of
             None \<Rightarrow> None
           | Some row \<Rightarrow> (case cj of None \<Rightarrow> None | Some j \<Rightarrow> row j)))"

text \<open>JavaScript falsiness of a stored value: the number 0 and the empty string.\<close>

fun falsy :: "cellval \<Rightarrow> bool" where
  "falsy (CNum n) = (n = 0)"
| "falsy (CStr s) = (s = [])"

fun to_Number :: "collab \<Rightarrow> cellval \<Rightarrow> real option" where
  "to_Number c (CNum n) = Some n"
| "to_Number c (CStr s) = string_to_Number c s"

text \<open>
  \<^verbatim>\<open>cell = ((map[ci] || {})[cj] || ' ')\<close> and
  \<^verbatim>\<open>checkpoint = (cell === ' ' ? NaN : Number(map[ci][cj]))\<close>; \<open>None\<close> is \<^verbatim>\<open>NaN\<close>.
\<close>

definition read_checkpoint :: "collab \<Rightarrow> Track \<Rightarrow> vec \<Rightarrow> real option" where
  "read_checkpoint c track pos =
     (let ci = cell_index c (snd pos);
          cj = cell_index c (fst pos);
          cell = (case lookup_cell track ci cj of
                    None \<Rightarrow> CStr '' ''
                  | Some v \<Rightarrow> if falsy v then CStr '' '' else v)
      in if cell = CStr '' '' then None else to_Number c cell)"

text \<open>
  \<^verbatim>\<open>laptimes[currentLaptime] += x\<close>. An index past the end extends the array and
  stores \<^verbatim>\<open>NaN\<close>; a negative index sets a property and touches no element.
\<close>

definition add_laptime :: "real option list \<Rightarrow> int \<Rightarrow> real \<Rightarrow> real option list" where
  "add_laptime lts k x =
     (if k < 0 then lts
      else
        (let i = nat k
         in if i < length lts then lts[i := map_option (\<lambda>v. v + x) (lts ! i)]
            else lts @ replicate (i - length lts) None @ [None]))"

text \<open>
  The body of \<^verbatim>\<open>bodies.map((body, i) => ...)\<close> for a slot with a body and a vessel.
  It returns the vessel as mutated in place (\<^verbatim>\<open>ship.lap\<close>, \<^verbatim>\<open>ship.currentLaptime\<close>),
  the new \<^verbatim>\<open>Ship\<close>, and the closure's \<^verbatim>\<open>state\<close> and \<^verbatim>\<open>counter\<close>. The call of
  \<^verbatim>\<open>log\<close> has no effect on the result.
\<close>

definition next_ship ::
  "collab \<Rightarrow> Track \<Rightarrow> real \<Rightarrow> game_state \<Rightarrow> real \<Rightarrow> Ship \<Rightarrow> Body \<Rightarrow>
   Ship \<times> Ship \<times> game_state \<times> real" where
  "next_ship c track dt st cnt ship body =
     (let oldCheckpoint = checkpoint ship;
          checkpoint' = (case read_checkpoint c track (body_position body) of
                           None \<Rightarrow> oldCheckpoint
                         | Some n \<Rightarrow> n);
          currentLaptime0 = currentLaptime ship;
          laptimes0 = laptimes ship;
          laptimes1 = (if \<not> hasFinishedRace c ship
                       then add_laptime laptimes0 currentLaptime0 (dt / 1000)
                       else laptimes0);
          r = (if checkpoint' \<noteq> oldCheckpoint then
                 (if checkpoint' = oldCheckpoint - 1 then (ship, laptimes1, st, cnt)
                  else if checkpoint' = oldCheckpoint + 1 then (ship, laptimes1, st, cnt)
                  else if checkpoint' > oldCheckpoint + 1 then
                    (let hadFinishedRace = hasFinishedRace c ship;
                         ship1 = ship\<lparr>lap := lap ship + 1\<rparr>;
                         ship2 = (if lap ship1 > currentLaptime ship1
                                  then ship1\<lparr>currentLaptime := lap ship1\<rparr> else ship1);
                         laptimes2 = (if lap ship1 > currentLaptime ship1
                                      then laptimes1 @ [Some 0] else laptimes1)
                     in if \<not> hadFinishedRace \<and> hasFinishedRace c ship2 \<and> st = IN_PROGRESS
                        then (ship2, laptimes2, FINISH_COUNTDOWN, FINISH_COUNTDOWN_S c)
                        else (ship2, laptimes2, st, cnt))
                  else if checkpoint' < oldCheckpoint - 1
                  then (ship\<lparr>lap := lap ship - 1\<rparr>, laptimes1, st, cnt)
                  else (ship, laptimes1, st, cnt))
               else (ship, laptimes1, st, cnt));
          ship' = fst r;
          laptimes' = fst (snd r)
      in (ship',
          \<lparr>position = body_position body, velocity = body_velocity body,
           angle = body_angle body, username = username ship', color = color ship',
           input = input ship', checkpoint = checkpoint', lap = lap ship',
           currentLaptime = currentLaptime ship', laptimes = laptimes'\<rparr>,
          snd (snd r)))"

text \<open>
  \<^verbatim>\<open>bodies.map\<close> over the pool, slot by slot: it returns \<^verbatim>\<open>nextShips\<close>, the vessels
  as mutated along the way, and the final \<^verbatim>\<open>state\<close> and \<^verbatim>\<open>counter\<close>. A hole of the
  pool and a slot without a vessel give an empty slot (a vessel without a body has
  already raised in \<open>apply_inputs\<close>).
\<close>

fun next_ships ::
  "collab \<Rightarrow> Track \<Rightarrow> real \<Rightarrow> (nat \<times> Body option) list \<Rightarrow> Ship option list \<Rightarrow>
   game_state \<Rightarrow> real \<Rightarrow> Ship option list \<times> Ship option list \<times> game_state \<times> real" where
  "next_ships c track dt [] shs st cnt = ([], shs, st, cnt)"
| "next_ships c track dt ((i, b) # rest) shs st cnt =
     (case b of
        None \<Rightarrow>
          (let r = next_ships c track dt rest shs st cnt in (None # fst r, snd r))
      | Some body \<Rightarrow>
          (case slot_get shs i of
             None \<Rightarrow>
               (let r = next_ships c track dt rest shs st cnt in (None # fst r, snd r))
           | Some ship \<Rightarrow>
               (let n = next_ship c track dt st cnt ship body;
                    r = next_ships c track dt rest (slot_set shs i (fst n))
                          (fst (snd (snd n))) (snd (snd (snd n)))
                in (Some (fst (snd n)) # fst r, snd r))))"

subsection \<open>evolve: the game state machine\<close>

text \<open>\<^verbatim>\<open>ships.every(ship => !ship || ship.hasFinishedRace())\<close>.\<close>

definition every_finished :: "collab \<Rightarrow> Ship option list \<Rightarrow> bool" where
  "every_finished c shs =
     list_all (\<lambda>s. case s of None \<Rightarrow> True | Some ship \<Rightarrow> hasFinishedRace c ship) shs"

text \<open>The game reset of one slot of \<^verbatim>\<open>nextShips\<close>.\<close>

definition reset_ship :: "nat \<Rightarrow> Ship \<Rightarrow> Ship" where
  "reset_ship i ship =
     ship\<lparr>position := positionForShipId i, velocity := (0, 0), angle := - pi / 2,
          checkpoint := 1, lap := 0, currentLaptime := 0, laptimes := [Some 0]\<rparr>"

definition state_machine ::
  "collab \<Rightarrow> Ship option list \<Rightarrow> Ship option list \<Rightarrow> game_state \<Rightarrow> real \<Rightarrow>
   Ship option list \<times> game_state \<times> real" where
  "state_machine c shs nextShips st cnt =
     (let counter1 = real_of_int \<lceil>cnt - 1\<rceil>
      in case st of
           FINISH_COUNTDOWN \<Rightarrow>
             (if counter1 = 0 \<or> every_finished c shs
              then (nextShips, RESULTS_SCREEN, RESULTS_SCREEN_S c)
              else (nextShips, st, counter1))
         | RESULTS_SCREEN \<Rightarrow>
             (if counter1 = 0
              then (map (\<lambda>(i, s). map_option (reset_ship i) s) (enumerate 0 nextShips),
                    IN_PROGRESS, counter1)
              else (nextShips, st, counter1))
         | IN_PROGRESS \<Rightarrow> (nextShips, st, counter1))"

subsection \<open>evolve\<close>

text \<open>The vessels and the pool after the server events have been consumed.\<close>

definition admin_phase :: "Body option list \<Rightarrow> Turn \<Rightarrow> Ship option list \<times> Body option list" where
  "admin_phase bodies t =
     consume_server_events (ships t, create_bodies (ships t) bodies) (serverEvents t)"

text \<open>The vessels and the pool after the inputs have been applied.\<close>

definition input_phase ::
  "collab \<Rightarrow> Body option list \<Rightarrow> Turn \<Rightarrow> error + (Ship option list \<times> Body option list)" where
  "input_phase c bodies t =
     (let a = admin_phase bodies t
      in apply_inputs c (state t) (events t) (fst a) (snd a) [0..<length (fst a)])"

text \<open>The same after \<^verbatim>\<open>world.step\<close>.\<close>

definition step_phase ::
  "collab \<Rightarrow> Body option list \<Rightarrow> real \<Rightarrow> Turn \<Rightarrow> error + (Ship option list \<times> Body option list)" where
  "step_phase c bodies dt t =
     (case input_phase c bodies t of
        Inl e \<Rightarrow> Inl e
      | Inr r \<Rightarrow> Inr (fst r, step_bodies c dt (snd r)))"

text \<open>
  \<^verbatim>\<open>nextShips\<close>, the vessels as mutated, and \<^verbatim>\<open>state\<close> and \<^verbatim>\<open>counter\<close> as they
  stand before the game state machine.
\<close>

definition detect_phase ::
  "collab \<Rightarrow> Track \<Rightarrow> real \<Rightarrow> Turn \<Rightarrow> Ship option list \<times> Body option list \<Rightarrow>
   Ship option list \<times> Ship option list \<times> game_state \<times> real" where
  "detect_phase c track dt t p =
     next_ships c track dt (enumerate 0 (snd p)) (fst p) (state t) (counter t)"

text \<open>
  \<^verbatim>\<open>evolve(map, world, bodies, dt)\<close>: the next Turn and the pool as mutated, or the
  exception raised. The world is the engine's; it is represented by \<open>world_step\<close>.
\<close>

definition evolve ::
  "collab \<Rightarrow> Track \<Rightarrow> Body option list \<Rightarrow> real \<Rightarrow> Turn \<Rightarrow> error + (Turn \<times> Body option list)" where
  "evolve c track bodies dt t =
     (case step_phase c bodies dt t of
        Inl e \<Rightarrow> Inl e
      | Inr p \<Rightarrow>
          (let n = detect_phase c track dt t p;
               m = state_machine c (fst (snd n)) (fst n) (fst (snd (snd n))) (snd (snd (snd n)))
           in Inr (\<lparr>ships = fst m, events = [], serverEvents = [],
                    state = fst (snd m), counter = snd (snd m)\<rparr>,
                   snd p)))"

subsection \<open>Derived notions used in the statements\<close>

text \<open>
  Every vessel has a body in its slot; the first loop of \<^verbatim>\<open>evolve\<close> and the SPAWN_PLAYER
  case establish it. The projections of \<open>next_ship\<close> do not depend on the closure's
  \<open>state\<close> and \<open>counter\<close>: the vessel as mutated, the new vessel, and whether the
  vessel has just finished the race. The match is reset in the tick in which the
  results screen's countdown reaches zero.
\<close>

definition bodies_cover :: "Ship option list \<Rightarrow> Body option list \<Rightarrow> bool" where
  "bodies_cover shs bodies \<longleftrightarrow> (\<forall>i. slot_get shs i \<noteq> None \<longrightarrow> slot_get bodies i \<noteq> None)"

definition mutated_ship :: "collab \<Rightarrow> Track \<Rightarrow> real \<Rightarrow> Ship \<Rightarrow> Body \<Rightarrow> Ship" where
  "mutated_ship c track dt ship body = fst (next_ship c track dt IN_PROGRESS 0 ship body)"

definition new_Ship :: "collab \<Rightarrow> Track \<Rightarrow> real \<Rightarrow> Ship \<Rightarrow> Body \<Rightarrow> Ship" where
  "new_Ship c track dt ship body = fst (snd (next_ship c track dt IN_PROGRESS 0 ship body))"

definition finishes_now :: "collab \<Rightarrow> Track \<Rightarrow> real \<Rightarrow> Ship \<Rightarrow> Body \<Rightarrow> bool" where
  "finishes_now c track dt ship body \<longleftrightarrow>
     (case read_checkpoint c track (body_position body) of
        None \<Rightarrow> False
      | Some cp \<Rightarrow> cp > checkpoint ship + 1 \<and> \<not> hasFinishedRace c ship \<and>
          hasFinishedRace c (mutated_ship c track dt ship body))"

definition slot_next :: "collab \<Rightarrow> Track \<Rightarrow> real \<Rightarrow> Ship option list \<Rightarrow> nat \<Rightarrow> Body option \<Rightarrow> Ship option" where
  "slot_next c track dt shs k b =
     (case b of
        None \<Rightarrow> None
      | Some body \<Rightarrow> map_option (\<lambda>ship. new_Ship c track dt ship body) (slot_get shs k))"

definition match_reset :: "Turn \<Rightarrow> bool" where
  "match_reset t \<longleftrightarrow> state t = RESULTS_SCREEN \<and> \<lceil>counter t - 1\<rceil> = 0"

text \<open>
  The lap times after this tick's time has been added, the vessel after a forward
  crossing of the finish line, and a grid cell that gives no checkpoint: it is absent,
  or holds a falsy value, the blank marker \<^verbatim>\<open>' '\<close>, or a value that is not a number.
\<close>

definition timed_laps :: "collab \<Rightarrow> real \<Rightarrow> Ship \<Rightarrow> real option list" where
  "timed_laps c dt ship =
     (if \<not> hasFinishedRace c ship
      then add_laptime (laptimes ship) (currentLaptime ship) (dt / 1000) else laptimes ship)"

definition lap_completed :: "Ship \<Rightarrow> Ship" where
  "lap_completed ship =
     ship\<lparr>lap := lap ship + 1,
          currentLaptime := (if currentLaptime ship < lap ship + 1 then lap ship + 1
                             else currentLaptime ship)\<rparr>"

definition no_checkpoint_at :: "collab \<Rightarrow> Track \<Rightarrow> vec \<Rightarrow> bool" where
  "no_checkpoint_at c track pos \<longleftrightarrow>
     (case lookup_cell track (cell_index c (snd pos)) (cell_index c (fst pos)) of
        None \<Rightarrow> True
      | Some v \<Rightarrow> falsy v \<or> v = CStr '' '' \<or> to_Number c v = None)"

text \<open>
  A vessel is eligible for control when it has not finished and the match is racing;
  the working input is the fold of the tick's queue over the vessel's last input with
  both turn flags cleared.
\<close>

definition eligible :: "collab \<Rightarrow> game_state \<Rightarrow> Ship \<Rightarrow> bool" where
  "eligible c st ship \<longleftrightarrow>
     \<not> hasFinishedRace c ship \<and> (st = IN_PROGRESS \<or> st = FINISH_COUNTDOWN)"

definition working_input :: "Ship \<Rightarrow> GameEvent list \<Rightarrow> PlayerInput" where
  "working_input ship playerEvents =
     foldl applyPlayerEvent ((copy_PlayerInput (input ship))\<lparr>turnL := False, turnR := False\<rparr>)
       playerEvents"

text \<open>The last SPAWN_PLAYER or DESTROY_PLAYER event of the queue that names slot \<open>j\<close>.\<close>

definition last_admin :: "nat \<Rightarrow> ServerEvent list \<Rightarrow> ServerEvent option" where
  "last_admin j sevs =
     find (\<lambda>sev. sev_val sev = j \<and> sev_type sev \<noteq> OTHER_EVENT) (rev sevs)"

text \<open>
  The lap-time invariant of a vessel, and the Turns reachable from a Turn without
  vessels by queueing events and evolving, with any collaborators, track, pool and
  tick length at each step.
\<close>

definition vessel_ok :: "Ship \<Rightarrow> bool" where
  "vessel_ok ship \<longleftrightarrow>
     lap ship \<le> currentLaptime ship \<and> laptimes ship \<noteq> [] \<and>
     currentLaptime ship = int (length (laptimes ship)) - 1"

definition all_ships :: "(Ship \<Rightarrow> bool) \<Rightarrow> Ship option list \<Rightarrow> bool" where
  "all_ships P shs \<longleftrightarrow> (\<forall>i ship. slot_get shs i = Some ship \<longrightarrow> P ship)"

inductive reachable :: "Turn \<Rightarrow> bool" where
  start: "ships t = [] \<Longrightarrow> reachable t"
| server: "reachable t \<Longrightarrow> reachable (snd (addServerEvent sevs t))"
| player: "reachable t \<Longrightarrow> reachable (snd (addEvents shipId evs t))"
| tick: "reachable t \<Longrightarrow> evolve c track bodies dt t = Inr (t', bodies') \<Longrightarrow> reachable t'"

subsection \<open>Concrete inputs for the worked examples\<close>

definition ship0 :: Ship where
  "ship0 =
     \<lparr>position = (98, 52), velocity = (0, 0), angle = 0, username = ''ann'',
      color = ''red'', input = new_PlayerInput, checkpoint = 1, lap = 0,
      currentLaptime = 0, laptimes = [Some 0]\<rparr>"

definition spawn_ev :: "nat \<Rightarrow> ServerEvent" where
  "spawn_ev k =
     \<lparr>sev_type = SPAWN_PLAYER, sev_val = k, sev_username = ''bob'', sev_color = ''blue''\<rparr>"

definition turn_slots :: Turn where
  "turn_slots =
     \<lparr>ships = [Some ship0, None, Some ship0], events = [],
      serverEvents = [spawn_ev 1, spawn_ev 4], state = IN_PROGRESS, counter = 0\<rparr>"

definition turn_queue :: Turn where
  "turn_queue =
     \<lparr>ships = [Some ship0],
      events = [Some [\<lparr>ev_type = Gas, ev_val = True\<rparr>, \<lparr>ev_type = TurnL, ev_val = True\<rparr>]],
      serverEvents = [], state = IN_PROGRESS, counter = 0\<rparr>"

text \<open>
  A one-lap-to-go race on a grid with two cells: checkpoint 9 under the spawn pose of
  slot 0, and the blank marker four cells to its right. \<^verbatim>\<open>Number\<close> reads the blank
  as 0, as JavaScript does. The engine stands still.
\<close>

definition digit_Number :: "string \<Rightarrow> real option" where
  "digit_Number = map_of [('' '', 0), (''1'', 1), (''2'', 2), (''3'', 3), (''9'', 9)]"

definition demo_collab :: collab where
  "demo_collab =
     \<lparr>hasFinishedRace = (\<lambda>ship. 2 \<le> lap ship),
      applyForceLocal = (\<lambda>body f. body\<lparr>body_force := (fst (body_force body) + fst f, snd (body_force body) + snd f)\<rparr>),
      world_step = (\<lambda>dt bodies i body. body),
      string_to_Number = digit_Number,
      FORCE = 300, CELL_EDGE = 2, FINISH_COUNTDOWN_S = 30, RESULTS_SCREEN_S = 10\<rparr>"

definition demo_track :: Track where
  "demo_track =
     (\<lambda>i. if i = 26
          then Some (\<lambda>j. if j = 49 then Some (CStr ''9'')
                         else if j = 53 then Some (CStr '' '') else None)
          else None)"

definition racer :: Ship where
  "racer = ship0\<lparr>lap := 1, currentLaptime := 1, laptimes := [Some 5, Some 7]\<rparr>"

definition turn_solo :: Turn where
  "turn_solo = \<lparr>ships = [Some racer], events = [], serverEvents = [], state = IN_PROGRESS, counter = 0\<rparr>"

definition stray :: Ship where
  "stray = ship0\<lparr>position := (101, 48), checkpoint := 4\<rparr>"

definition parked :: Ship where
  "parked = ship0\<lparr>position := (105, 52), checkpoint := 4\<rparr>"

definition turn_parked :: Turn where
  "turn_parked = \<lparr>ships = [Some parked], events = [], serverEvents = [],
     state = IN_PROGRESS, counter = 0\<rparr>"

definition turn_duo :: Turn where
  "turn_duo = \<lparr>ships = [Some racer, Some stray], events = [],
     serverEvents = [], state = IN_PROGRESS, counter = 0\<rparr>"

definition turn_results :: Turn where
  "turn_results = \<lparr>ships = [Some stray], events = [], serverEvents = [],
     state = RESULTS_SCREEN, counter = 1\<rparr>"

definition turn_results_cross :: Turn where
  "turn_results_cross = \<lparr>ships = [Some racer], events = [], serverEvents = [],
     state = RESULTS_SCREEN, counter = 1\<rparr>"

definition turn_results_pair :: Turn where
  "turn_results_pair = \<lparr>ships = [None, Some stray], events = [], serverEvents = [],
     state = RESULTS_SCREEN, counter = 1\<rparr>"

definition still_body :: "vec \<Rightarrow> Body" where
  "still_body pos =
     \<lparr>body_position = pos, body_velocity = (0, 0), body_angle = 0, body_force = (0, 0),
      body_angularForce = 0\<rparr>"

definition turn_spawn :: Turn where
  "turn_spawn = \<lparr>ships = [], events = [], serverEvents = [spawn_ev 3],
     state = IN_PROGRESS, counter = 0\<rparr>"

definition finished_racer :: Ship where
  "finished_racer =
     racer\<lparr>lap := 2, currentLaptime := 2, laptimes := [Some 5, Some 7, Some 0],
           input := new_PlayerInput\<lparr>gas := True\<rparr>\<rparr>"

definition turn_finished :: Turn where
  "turn_finished =
     \<lparr>ships = [Some finished_racer], events = [Some [\<lparr>ev_type = TurnL, ev_val = True\<rparr>]],
      serverEvents = [], state = IN_PROGRESS, counter = 0\<rparr>"

definition held_left :: Ship where
  "held_left = ship0\<lparr>input := new_PlayerInput\<lparr>gas := True, turnL := True\<rparr>\<rparr>"

definition turn_steer :: Turn where
  "turn_steer =
     \<lparr>ships = [Some held_left, Some stray],
      events = [None, Some [\<lparr>ev_type = TurnR, ev_val = True\<rparr>]],
      serverEvents = [], state = IN_PROGRESS, counter = 0\<rparr>"

definition turn_respawn :: Turn where
  "turn_respawn =
     \<lparr>ships = [Some racer], events = [], serverEvents = [spawn_ev 0],
      state = IN_PROGRESS, counter = 0\<rparr>"

definition turn_two_spawns :: Turn where
  "turn_two_spawns =
     \<lparr>ships = [], events = [],
      serverEvents = [spawn_ev 0, (spawn_ev 0)\<lparr>sev_username := ''cat''\<rparr>],
      state = IN_PROGRESS, counter = 0\<rparr>"

definition turn_first :: Turn where
  "turn_first = \<lparr>ships = [], events = [], serverEvents = [spawn_ev 0],
     state = IN_PROGRESS, counter = 0\<rparr>"

definition turn_second :: Turn where
  "turn_second =
     \<lparr>ships = [Some \<lparr>position = (98, 52), velocity = (0, 0), angle = - pi / 2,
                     username = ''bob'', color = ''blue'', input = new_PlayerInput,
                     checkpoint = 9, lap = 1, currentLaptime = 1,
                     laptimes = [Some 1, Some 0]\<rparr>],
      events = [], serverEvents = [], state = IN_PROGRESS, counter = - 1\<rparr>"

section \<open>Properties\<close>

lemmas demo_defs = demo_collab_def demo_track_def racer_def stray_def ship0_def turn_solo_def turn_duo_def
  parked_def turn_parked_def
  turn_results_def turn_results_pair_def turn_results_cross_def still_body_def new_PlayerInput_def digit_Number_def

lemmas evolve_defs = evolve_def step_phase_def input_phase_def admin_phase_def detect_phase_def
  create_bodies_def ensure_body_def consume_server_events_def consume_server_event_def
  slot_get_def slot_set_def slot_delete_def new_Body_def resetBody_def apply_input_def
  sync_body_def steer_def thrust_def air_drag_def
  player_events_def scale_vec_def step_bodies_def next_ship_def read_checkpoint_def
  cell_index_def lookup_cell_def add_laptime_def state_machine_def every_finished_def
  applyPlayerEvent_def copy_PlayerInput_def
  reset_ship_def positionForShipId_def spawn_Ship_def Let_def


subsection \<open>Slots, bodies and the phases of evolve\<close>

lemma slot_get_slot_set: "slot_get (slot_set xs i v) j = (if j = i then Some v else slot_get xs j)"
  by (auto simp: slot_get_def slot_set_def nth_append nth_Cons' split: if_splits)

lemma length_slot_set: "length (slot_set xs i v) = max (length xs) (Suc i)"
  by (auto simp: slot_set_def)

lemma slot_get_slot_delete: "slot_get (slot_delete xs i) j = (if j = i then None else slot_get xs j)"
  by (auto simp: slot_get_def slot_delete_def)

lemma length_slot_delete: "length (slot_delete xs i) = length xs"
  by (auto simp: slot_delete_def)

lemma slot_get_beyond: "length xs \<le> i \<Longrightarrow> slot_get xs i = None"
  by (simp add: slot_get_def)

lemma slot_get_Some_less: "slot_get xs i = Some v \<Longrightarrow> i < length xs"
  by (simp add: slot_get_def split: if_splits)

lemma ensure_body_keeps: "slot_get bodies j \<noteq> None \<Longrightarrow> slot_get (ensure_body shs bodies i) j \<noteq> None"
  by (auto simp: ensure_body_def slot_get_slot_set split: option.splits)

lemma ensure_body_makes: "slot_get shs i \<noteq> None \<Longrightarrow> slot_get (ensure_body shs bodies i) i \<noteq> None"
  by (auto simp: ensure_body_def slot_get_slot_set split: option.splits)

lemma foldl_ensure_body_keeps:
  "slot_get bodies j \<noteq> None \<Longrightarrow> slot_get (foldl (ensure_body shs) bodies is) j \<noteq> None"
proof (induction "is" arbitrary: bodies)
  case Nil
  then show ?case by simp
next
  case (Cons k ks)
  from Cons.prems have "slot_get (ensure_body shs bodies k) j \<noteq> None"
    by (rule ensure_body_keeps)
  then have "slot_get (foldl (ensure_body shs) (ensure_body shs bodies k) ks) j \<noteq> None"
    by (rule Cons.IH)
  then show ?case by simp
qed

lemma foldl_ensure_body_makes:
  "i \<in> set is \<Longrightarrow> slot_get shs i \<noteq> None \<Longrightarrow> slot_get (foldl (ensure_body shs) bodies is) i \<noteq> None"
proof (induction "is" arbitrary: bodies)
  case Nil
  then show ?case by simp
next
  case (Cons k ks)
  show ?case
  proof (cases "i = k")
    case True
    with Cons.prems(2) have "slot_get (ensure_body shs bodies k) i \<noteq> None"
      by (simp add: ensure_body_makes)
    then have "slot_get (foldl (ensure_body shs) (ensure_body shs bodies k) ks) i \<noteq> None"
      by (rule foldl_ensure_body_keeps)
    then show ?thesis by simp
  next
    case False
    with Cons.prems have "i \<in> set ks" by simp
    then have "slot_get (foldl (ensure_body shs) (ensure_body shs bodies k) ks) i \<noteq> None"
      using Cons.prems(2) by (rule Cons.IH)
    then show ?thesis by simp
  qed
qed

lemma create_bodies_cover: "bodies_cover shs (create_bodies shs bodies)"
  unfolding bodies_cover_def create_bodies_def
proof (intro allI impI)
  fix i assume occ: "slot_get shs i \<noteq> None"
  then have "i < length shs" by (auto simp: slot_get_def split: if_splits)
  then have "i \<in> set [0..<max (length shs) (length bodies)]" by simp
  then show "slot_get (foldl (ensure_body shs) bodies [0..<max (length shs) (length bodies)]) i \<noteq> None"
    using occ by (rule foldl_ensure_body_makes)
qed

lemma consume_server_event_cover:
  "bodies_cover (fst acc) (snd acc) \<Longrightarrow>
   bodies_cover (fst (consume_server_event acc sev)) (snd (consume_server_event acc sev))"
  by (cases "sev_type sev")
     (auto simp: consume_server_event_def bodies_cover_def Let_def slot_get_slot_set slot_get_slot_delete)

lemma consume_server_events_cover:
  "bodies_cover (fst acc) (snd acc) \<Longrightarrow>
   bodies_cover (fst (consume_server_events acc sevs)) (snd (consume_server_events acc sevs))"
  unfolding consume_server_events_def
proof (induction sevs arbitrary: acc)
  case Nil
  then show ?case by simp
next
  case (Cons sev sevs)
  from Cons.prems
  have "bodies_cover (fst (consume_server_event acc sev)) (snd (consume_server_event acc sev))"
    by (rule consume_server_event_cover)
  then show ?case using Cons.IH by simp
qed

lemma admin_phase_cover: "bodies_cover (fst (admin_phase bodies t)) (snd (admin_phase bodies t))"
  unfolding admin_phase_def
  by (rule consume_server_events_cover) (simp add: create_bodies_cover)

lemma bodies_cover_slot_set:
  "bodies_cover shs bodies \<Longrightarrow> bodies_cover (slot_set shs i s) (slot_set bodies i b)"
  by (simp add: bodies_cover_def slot_get_slot_set)

lemma apply_inputs_slots:
  assumes "bodies_cover shs bodies" and "distinct is"
  shows "\<exists>shs' bodies'. apply_inputs c st evq shs bodies is = Inr (shs', bodies') \<and>
     bodies_cover shs' bodies' \<and>
     (\<forall>j. slot_get shs j = None \<longrightarrow>
          slot_get shs' j = None \<and> slot_get bodies' j = slot_get bodies j) \<and>
     (\<forall>j ship. slot_get shs j = Some ship \<and> j \<notin> set is \<longrightarrow>
          slot_get shs' j = Some ship \<and> slot_get bodies' j = slot_get bodies j) \<and>
     (\<forall>j ship body. slot_get shs j = Some ship \<and> slot_get bodies j = Some body \<and> j \<in> set is \<longrightarrow>
          slot_get shs' j = Some (fst (apply_input c st (player_events evq j) ship body)) \<and>
          slot_get bodies' j = Some (snd (apply_input c st (player_events evq j) ship body)))"
  using assms
proof (induction "is" arbitrary: shs bodies)
  case Nil
  then show ?case by simp
next
  case (Cons i rest)
  from Cons.prems have dist: "distinct rest" and notin: "i \<notin> set rest" by simp_all
  show ?case
  proof (cases "slot_get shs i")
    case None
    from Cons.IH [OF Cons.prems(1) dist] obtain shs' bodies' where
      r: "apply_inputs c st evq shs bodies rest = Inr (shs', bodies')"
      and cov: "bodies_cover shs' bodies'"
      and a: "\<forall>j. slot_get shs j = None \<longrightarrow>
          slot_get shs' j = None \<and> slot_get bodies' j = slot_get bodies j"
      and b: "\<forall>j ship. slot_get shs j = Some ship \<and> j \<notin> set rest \<longrightarrow>
          slot_get shs' j = Some ship \<and> slot_get bodies' j = slot_get bodies j"
      and d: "\<forall>j ship body. slot_get shs j = Some ship \<and> slot_get bodies j = Some body \<and> j \<in> set rest \<longrightarrow>
          slot_get shs' j = Some (fst (apply_input c st (player_events evq j) ship body)) \<and>
          slot_get bodies' j = Some (snd (apply_input c st (player_events evq j) ship body))"
      by blast
    have "apply_inputs c st evq shs bodies (i # rest) = Inr (shs', bodies')"
      using None r by simp
    moreover have "\<forall>j ship body. slot_get shs j = Some ship \<and> slot_get bodies j = Some body \<and> j \<in> set (i # rest) \<longrightarrow>
          slot_get shs' j = Some (fst (apply_input c st (player_events evq j) ship body)) \<and>
          slot_get bodies' j = Some (snd (apply_input c st (player_events evq j) ship body))"
      using d None by auto
    moreover have "\<forall>j ship. slot_get shs j = Some ship \<and> j \<notin> set (i # rest) \<longrightarrow>
          slot_get shs' j = Some ship \<and> slot_get bodies' j = slot_get bodies j"
      using b by auto
    ultimately show ?thesis using cov a by blast
  next
    case (Some ship)
    with Cons.prems(1) obtain body where body: "slot_get bodies i = Some body"
      by (auto simp: bodies_cover_def)
    define ship1 where "ship1 = fst (apply_input c st (player_events evq i) ship body)"
    define body1 where "body1 = snd (apply_input c st (player_events evq i) ship body)"
    define shs1 where "shs1 = slot_set shs i ship1"
    define bodies1 where "bodies1 = slot_set bodies i body1"
    have cov1: "bodies_cover shs1 bodies1"
      unfolding shs1_def bodies1_def using Cons.prems(1) by (rule bodies_cover_slot_set)
    have g1: "slot_get shs1 j = (if j = i then Some ship1 else slot_get shs j)" for j
      by (simp add: shs1_def slot_get_slot_set)
    have g2: "slot_get bodies1 j = (if j = i then Some body1 else slot_get bodies j)" for j
      by (simp add: bodies1_def slot_get_slot_set)
    from Cons.IH [OF cov1 dist] obtain shs' bodies' where
      r: "apply_inputs c st evq shs1 bodies1 rest = Inr (shs', bodies')"
      and cov: "bodies_cover shs' bodies'"
      and a: "\<forall>j. slot_get shs1 j = None \<longrightarrow>
          slot_get shs' j = None \<and> slot_get bodies' j = slot_get bodies1 j"
      and b: "\<forall>j ship. slot_get shs1 j = Some ship \<and> j \<notin> set rest \<longrightarrow>
          slot_get shs' j = Some ship \<and> slot_get bodies' j = slot_get bodies1 j"
      and d: "\<forall>j ship body. slot_get shs1 j = Some ship \<and> slot_get bodies1 j = Some body \<and> j \<in> set rest \<longrightarrow>
          slot_get shs' j = Some (fst (apply_input c st (player_events evq j) ship body)) \<and>
          slot_get bodies' j = Some (snd (apply_input c st (player_events evq j) ship body))"
      by blast
    have run: "apply_inputs c st evq shs bodies (i # rest) = Inr (shs', bodies')"
      using Some body r by (simp add: Let_def shs1_def bodies1_def ship1_def body1_def)
    have A: "\<forall>j. slot_get shs j = None \<longrightarrow>
          slot_get shs' j = None \<and> slot_get bodies' j = slot_get bodies j"
    proof (intro allI impI)
      fix j assume n: "slot_get shs j = None"
      with Some have ne: "j \<noteq> i" by auto
      with n have "slot_get shs1 j = None" by (simp add: g1)
      with a have "slot_get shs' j = None \<and> slot_get bodies' j = slot_get bodies1 j" by blast
      with ne show "slot_get shs' j = None \<and> slot_get bodies' j = slot_get bodies j"
        by (simp add: g2)
    qed
    have B: "\<forall>j ship. slot_get shs j = Some ship \<and> j \<notin> set (i # rest) \<longrightarrow>
          slot_get shs' j = Some ship \<and> slot_get bodies' j = slot_get bodies j"
    proof (intro allI impI)
      fix j s assume h: "slot_get shs j = Some s \<and> j \<notin> set (i # rest)"
      then have ne: "j \<noteq> i" and nr: "j \<notin> set rest" by simp_all
      from h ne have "slot_get shs1 j = Some s" by (simp add: g1)
      with b nr have "slot_get shs' j = Some s \<and> slot_get bodies' j = slot_get bodies1 j"
        by blast
      with ne show "slot_get shs' j = Some s \<and> slot_get bodies' j = slot_get bodies j"
        by (simp add: g2)
    qed
    have D: "\<forall>j ship body. slot_get shs j = Some ship \<and> slot_get bodies j = Some body \<and> j \<in> set (i # rest) \<longrightarrow>
          slot_get shs' j = Some (fst (apply_input c st (player_events evq j) ship body)) \<and>
          slot_get bodies' j = Some (snd (apply_input c st (player_events evq j) ship body))"
    proof (intro allI impI)
      fix j s bd
      assume h: "slot_get shs j = Some s \<and> slot_get bodies j = Some bd \<and> j \<in> set (i # rest)"
      show "slot_get shs' j = Some (fst (apply_input c st (player_events evq j) s bd)) \<and>
          slot_get bodies' j = Some (snd (apply_input c st (player_events evq j) s bd))"
      proof (cases "j = i")
        case True
        with h Some body have "s = ship" "bd = body" by simp_all
        moreover from b [rule_format, of i ship1] notin
        have "slot_get shs' i = Some ship1 \<and> slot_get bodies' i = Some body1"
          by (simp add: g1 g2)
        ultimately show ?thesis using True by (simp add: ship1_def body1_def)
      next
        case False
        with h have "j \<in> set rest" by simp
        with d [rule_format, of j s bd] h False show ?thesis by (simp add: g1 g2)
      qed
    qed
    from run cov A B D show ?thesis by blast
  qed
qed

lemma next_ship_fst: "fst (next_ship c track dt st cnt ship body) = mutated_ship c track dt ship body"
  by (simp add: next_ship_def mutated_ship_def Let_def)

lemma next_ship_new: "fst (snd (next_ship c track dt st cnt ship body)) = new_Ship c track dt ship body"
  by (simp add: next_ship_def new_Ship_def Let_def)

lemma next_ship_state:
  "snd (snd (next_ship c track dt st cnt ship body)) =
     (if finishes_now c track dt ship body \<and> st = IN_PROGRESS
      then (FINISH_COUNTDOWN, FINISH_COUNTDOWN_S c) else (st, cnt))"
  by (auto simp add: next_ship_def finishes_now_def mutated_ship_def Let_def split: option.splits)

lemma enumerate_ge: "(k, b) \<in> set (enumerate n bs) \<Longrightarrow> n \<le> k"
  by (auto simp: in_set_enumerate_eq)

lemma next_ships_fst:
  "(\<forall>k \<ge> n. slot_get shs k = slot_get shs0 k) \<Longrightarrow>
   fst (next_ships c track dt (enumerate n bs) shs st cnt) =
     map (\<lambda>(k, b). slot_next c track dt shs0 k b) (enumerate n bs)"
proof (induction bs arbitrary: n shs st cnt)
  case Nil
  then show ?case by simp
next
  case (Cons b bs)
  have here: "slot_get shs n = slot_get shs0 n" using Cons.prems by simp
  have rest: "\<forall>k \<ge> Suc n. slot_get shs k = slot_get shs0 k" using Cons.prems by simp
  show ?case
  proof (cases b)
    case None
    then show ?thesis using Cons.IH [OF rest] by (simp add: Let_def slot_next_def)
  next
    case (Some body)
    show ?thesis
    proof (cases "slot_get shs n")
      case None
      then show ?thesis using Some here Cons.IH [OF rest]
        by (simp add: Let_def slot_next_def)
    next
      case (Some ship)
      have "\<forall>k \<ge> Suc n. slot_get (slot_set shs n s) k = slot_get shs0 k" for s
        using rest by (simp add: slot_get_slot_set)
      from Cons.IH [OF this] show ?thesis using Some \<open>b = Some body\<close> here
        by (simp add: Let_def slot_next_def next_ship_new)
    qed
  qed
qed

lemma next_ships_state_other:
  "st \<noteq> IN_PROGRESS \<Longrightarrow> snd (snd (next_ships c track dt ps shs st cnt)) = (st, cnt)"
proof (induction ps arbitrary: shs)
  case Nil
  then show ?case by simp
next
  case (Cons p ps)
  obtain i b where p: "p = (i, b)" by (cases p)
  show ?case using Cons
    by (auto simp: p Let_def next_ship_state next_ship_fst split: option.splits)
qed

lemma next_ships_state_finish:
  assumes "\<forall>j \<ge> n. slot_get shs j = slot_get shs0 j"
    and "(k, Some body) \<in> set (enumerate n bs)"
    and "slot_get shs0 k = Some ship"
    and "finishes_now c track dt ship body"
    and "st = IN_PROGRESS \<or> (st, cnt) = (FINISH_COUNTDOWN, FINISH_COUNTDOWN_S c)"
  shows "snd (snd (next_ships c track dt (enumerate n bs) shs st cnt)) =
     (FINISH_COUNTDOWN, FINISH_COUNTDOWN_S c)"
  using assms(1,2,5)
proof (induction bs arbitrary: n shs st cnt)
  case Nil
  then show ?case by simp
next
  case (Cons b bs)
  have rest: "\<forall>j \<ge> Suc n. slot_get (slot_set shs n s) j = slot_get shs0 j" for s
    using Cons.prems(1) by (simp add: slot_get_slot_set)
  have rest0: "\<forall>j \<ge> Suc n. slot_get shs j = slot_get shs0 j"
    using Cons.prems(1) by simp
  show ?case
  proof (cases "k = n")
    case True
    with Cons.prems(2) have b: "b = Some body"
      by (auto dest: enumerate_ge)
    from True assms(3) Cons.prems(1) have s: "slot_get shs n = Some ship" by simp
    have "snd (snd (next_ship c track dt st cnt ship body)) = (FINISH_COUNTDOWN, FINISH_COUNTDOWN_S c)"
      using Cons.prems(3) assms(4) by (auto simp: next_ship_state)
    then have st1: "fst (snd (snd (next_ship c track dt st cnt ship body))) = FINISH_COUNTDOWN"
      and cnt1: "snd (snd (snd (next_ship c track dt st cnt ship body))) = FINISH_COUNTDOWN_S c"
      by simp_all
    show ?thesis
      by (simp add: b s Let_def st1 cnt1 next_ships_state_other)
  next
    case False
    with Cons.prems(2) have mem: "(k, Some body) \<in> set (enumerate (Suc n) bs)" by auto
    show ?thesis
    proof (cases b)
      case None
      then show ?thesis using Cons.IH [OF rest0 mem Cons.prems(3)] by (simp add: Let_def)
    next
      case (Some body')
      show ?thesis
      proof (cases "slot_get shs n")
        case None
        then show ?thesis using Some Cons.IH [OF rest0 mem Cons.prems(3)] by (simp add: Let_def)
      next
        case (Some ship')
        let ?n = "next_ship c track dt st cnt ship' body'"
        have "fst (snd (snd ?n)) = IN_PROGRESS \<or>
            (fst (snd (snd ?n)), snd (snd (snd ?n))) = (FINISH_COUNTDOWN, FINISH_COUNTDOWN_S c)"
          using Cons.prems(3) by (auto simp: next_ship_state)
        from Cons.IH [OF rest mem this] show ?thesis
          using Some \<open>b = Some body'\<close> by (simp add: Let_def)
      qed
    qed
  qed
qed

lemma slot_get_map_enumerate:
  "slot_get (map (\<lambda>(k, x). map_option (g k) x) (enumerate 0 xs)) i = map_option (g i) (slot_get xs i)"
  by (simp add: slot_get_def nth_enumerate_eq)

lemma slot_get_step_bodies:
  "slot_get (step_bodies c dt bs) i = map_option (world_step c (dt / 1000) bs i) (slot_get bs i)"
  by (simp add: step_bodies_def slot_get_map_enumerate)

lemma slot_get_next_ships:
  "slot_get (fst (next_ships c track dt (enumerate 0 bs) shs st cnt)) i =
     (case slot_get bs i of
        None \<Rightarrow> None
      | Some body \<Rightarrow> map_option (\<lambda>ship. new_Ship c track dt ship body) (slot_get shs i))"
proof -
  have "fst (next_ships c track dt (enumerate 0 bs) shs st cnt) =
      map (\<lambda>(k, b). slot_next c track dt shs k b) (enumerate 0 bs)"
    by (rule next_ships_fst) simp
  then show ?thesis
    by (simp add: slot_get_def nth_enumerate_eq slot_next_def split: option.split)
qed

lemma next_ships_state_not_results:
  "st \<noteq> RESULTS_SCREEN \<Longrightarrow>
   fst (snd (snd (next_ships c track dt ps shs st cnt))) \<noteq> RESULTS_SCREEN"
proof (induction ps arbitrary: shs st cnt)
  case Nil
  then show ?case by simp
next
  case (Cons p ps)
  obtain i b where p: "p = (i, b)" by (cases p)
  have "fst (snd (snd (next_ship c track dt st cnt ship body))) \<noteq> RESULTS_SCREEN" for ship body
    using Cons.prems by (simp add: next_ship_state)
  then show ?case using Cons
    by (auto simp: p Let_def split: option.splits)
qed

lemma state_machine_ships:
  "fst (state_machine c shs ns st cnt) =
     (if st = RESULTS_SCREEN \<and> \<lceil>cnt - 1\<rceil> = 0
      then map (\<lambda>(i, s). map_option (reset_ship i) s) (enumerate 0 ns) else ns)"
  by (cases st) (simp_all add: state_machine_def Let_def)

lemma input_phase_slots:
  "\<exists>shs bs. input_phase c bodies t = Inr (shs, bs) \<and> bodies_cover shs bs \<and>
     (\<forall>j. slot_get (fst (admin_phase bodies t)) j = None \<longrightarrow> slot_get shs j = None) \<and>
     (\<forall>j ship. slot_get (fst (admin_phase bodies t)) j = Some ship \<longrightarrow>
        (\<exists>body. slot_get (snd (admin_phase bodies t)) j = Some body \<and>
           slot_get shs j =
             Some (fst (apply_input c (state t) (player_events (events t) j) ship body)) \<and>
           slot_get bs j =
             Some (snd (apply_input c (state t) (player_events (events t) j) ship body))))"
proof -
  let ?a = "admin_phase bodies t"
  have "distinct [0..<length (fst ?a)]" by simp
  from apply_inputs_slots [OF admin_phase_cover this, of c "state t" "events t" bodies t]
  obtain shs' bodies' where
    r: "apply_inputs c (state t) (events t) (fst ?a) (snd ?a) [0..<length (fst ?a)] = Inr (shs', bodies')"
    and cov: "bodies_cover shs' bodies'"
    and a: "\<forall>j. slot_get (fst ?a) j = None \<longrightarrow>
          slot_get shs' j = None \<and> slot_get bodies' j = slot_get (snd ?a) j"
    and d: "\<forall>j ship body. slot_get (fst ?a) j = Some ship \<and> slot_get (snd ?a) j = Some body \<and>
          j \<in> set [0..<length (fst ?a)] \<longrightarrow>
          slot_get shs' j = Some (fst (apply_input c (state t) (player_events (events t) j) ship body)) \<and>
          slot_get bodies' j = Some (snd (apply_input c (state t) (player_events (events t) j) ship body))"
    by blast
  have "\<exists>body. slot_get (snd ?a) j = Some body \<and>
           slot_get shs' j =
             Some (fst (apply_input c (state t) (player_events (events t) j) ship body)) \<and>
           slot_get bodies' j =
             Some (snd (apply_input c (state t) (player_events (events t) j) ship body))"
    if s: "slot_get (fst ?a) j = Some ship" for j ship
  proof -
    from s have mem: "j \<in> set [0..<length (fst ?a)]"
      by (simp add: slot_get_def split: if_splits)
    from s admin_phase_cover [of bodies t] obtain body where b: "slot_get (snd ?a) j = Some body"
      by (auto simp: bodies_cover_def)
    with d s mem show ?thesis by blast
  qed
  with r cov a show ?thesis by (simp add: input_phase_def Let_def)
qed

lemma step_phase_total:
  "\<exists>shs bs. step_phase c bodies dt t = Inr (shs, bs) \<and> bodies_cover shs bs \<and>
     (\<forall>j. slot_get shs j \<noteq> None \<longleftrightarrow> slot_get (fst (admin_phase bodies t)) j \<noteq> None)"
proof -
  from input_phase_slots [of c bodies t] obtain shs bs where
    r: "input_phase c bodies t = Inr (shs, bs)" and cov: "bodies_cover shs bs"
    and a: "\<forall>j. slot_get (fst (admin_phase bodies t)) j = None \<longrightarrow> slot_get shs j = None"
    and d: "\<forall>j ship. slot_get (fst (admin_phase bodies t)) j = Some ship \<longrightarrow>
        (\<exists>body. slot_get (snd (admin_phase bodies t)) j = Some body \<and>
           slot_get shs j =
             Some (fst (apply_input c (state t) (player_events (events t) j) ship body)) \<and>
           slot_get bs j =
             Some (snd (apply_input c (state t) (player_events (events t) j) ship body)))"
    by blast
  have cov': "bodies_cover shs (step_bodies c dt bs)"
    using cov by (auto simp: bodies_cover_def slot_get_step_bodies)
  have occ: "slot_get shs j \<noteq> None \<longleftrightarrow> slot_get (fst (admin_phase bodies t)) j \<noteq> None" for j
  proof (cases "slot_get (fst (admin_phase bodies t)) j")
    case None
    with a show ?thesis by simp
  next
    case (Some ship)
    with d show ?thesis by fastforce
  qed
  from r cov' occ show ?thesis by (simp add: step_phase_def)
qed

text \<open>The output of evolve, slot by slot, and its phase and countdown.\<close>

lemma evolve_result:
  assumes "step_phase c bodies dt t = Inr (shs, bs)"
  shows "\<exists>t'. evolve c track bodies dt t = Inr (t', bs) \<and> events t' = [] \<and> serverEvents t' = [] \<and>
     (\<forall>i. slot_get (ships t') i =
        (case slot_get bs i of
           None \<Rightarrow> None
         | Some body \<Rightarrow>
             map_option (\<lambda>ship. if match_reset t then reset_ship i (new_Ship c track dt ship body)
                                else new_Ship c track dt ship body) (slot_get shs i))) \<and>
     (state t', counter t') =
        snd (state_machine c (fst (snd (detect_phase c track dt t (shs, bs))))
               (fst (detect_phase c track dt t (shs, bs)))
               (fst (snd (snd (detect_phase c track dt t (shs, bs)))))
               (snd (snd (snd (detect_phase c track dt t (shs, bs))))))"
proof -
  let ?n = "detect_phase c track dt t (shs, bs)"
  let ?m = "state_machine c (fst (snd ?n)) (fst ?n) (fst (snd (snd ?n))) (snd (snd (snd ?n)))"
  let ?t = "\<lparr>ships = fst ?m, events = [], serverEvents = [],
                    state = fst (snd ?m), counter = snd (snd ?m)\<rparr>"
  have ev: "evolve c track bodies dt t = Inr (?t, bs)"
    using assms by (simp add: evolve_def Let_def)
  have keep: "state t = RESULTS_SCREEN \<Longrightarrow> snd (snd ?n) = (RESULTS_SCREEN, counter t)"
    by (simp add: detect_phase_def next_ships_state_other)
  have other: "state t \<noteq> RESULTS_SCREEN \<Longrightarrow> fst (snd (snd ?n)) \<noteq> RESULTS_SCREEN"
    unfolding detect_phase_def by (rule next_ships_state_not_results)
  have sh: "fst ?m = (if match_reset t
      then map (\<lambda>(i, s). map_option (reset_ship i) s) (enumerate 0 (fst ?n)) else fst ?n)"
  proof (cases "state t = RESULTS_SCREEN")
    case True
    with keep show ?thesis by (simp add: state_machine_ships match_reset_def)
  next
    case False
    with other show ?thesis by (simp add: state_machine_ships match_reset_def)
  qed
  have ns: "slot_get (fst ?n) i =
     (case slot_get bs i of
        None \<Rightarrow> None
      | Some body \<Rightarrow> map_option (\<lambda>ship. new_Ship c track dt ship body) (slot_get shs i))" for i
    by (simp add: detect_phase_def slot_get_next_ships)
  have "slot_get (fst ?m) i =
        (case slot_get bs i of
           None \<Rightarrow> None
         | Some body \<Rightarrow>
             map_option (\<lambda>ship. if match_reset t then reset_ship i (new_Ship c track dt ship body)
                                else new_Ship c track dt ship body) (slot_get shs i))" for i
  proof (cases "match_reset t")
    case True
    then have "slot_get (fst ?m) i = map_option (reset_ship i) (slot_get (fst ?n) i)"
      by (simp add: sh slot_get_map_enumerate)
    then show ?thesis using True
      by (simp add: ns option.map_comp comp_def split: option.split)
  next
    case False
    then show ?thesis by (simp add: sh ns split: option.split)
  qed
  with ev show ?thesis by simp
qed

subsection \<open>Slot reservation\<close>

lemma free_slot_from_not_taken:
  "\<not> slot_taken shs reserved (free_slot_from shs reserved n)"
  by (induction shs reserved n rule: free_slot_from.induct)
     (subst free_slot_from.simps, simp)

lemma free_slot_from_ge: "n \<le> free_slot_from shs reserved n"
proof (induction shs reserved n rule: free_slot_from.induct)
  case (1 shs reserved freeSlot)
  show ?case
  proof (cases "slot_taken shs reserved freeSlot")
    case True
    with "1" have "Suc freeSlot \<le> free_slot_from shs reserved (Suc freeSlot)" by simp
    with True show ?thesis by (subst free_slot_from.simps) simp
  next
    case False
    then show ?thesis by (subst free_slot_from.simps) simp
  qed
qed

lemma free_slot_from_least:
  "n \<le> m \<Longrightarrow> m < free_slot_from shs reserved n \<Longrightarrow> slot_taken shs reserved m"
proof (induction shs reserved n rule: free_slot_from.induct)
  case (1 shs reserved freeSlot)
  show ?case
  proof (cases "slot_taken shs reserved freeSlot")
    case True
    note taken = this
    show ?thesis
    proof (cases "m = freeSlot")
      case True
      with taken show ?thesis by simp
    next
      case False
      with "1.prems" have le: "Suc freeSlot \<le> m" by simp
      from "1.prems"(2) taken have "m < free_slot_from shs reserved (Suc freeSlot)"
        by (subst (asm) free_slot_from.simps) simp
      with "1.IH" [OF taken le] show ?thesis by simp
    qed
  next
    case False
    with "1.prems" show ?thesis by (subst (asm) free_slot_from.simps) simp
  qed
qed

text \<open>
  C3. For every Turn, getFreeShipSlot returns the lowest slot index that is neither
  occupied by a live vessel nor named by a SPAWN_PLAYER event queued in serverEvents:
  the returned slot is in neither set, and every lower slot is in one of them.
\<close>

theorem getFreeShipSlot_lowest_free:
  "slot_get (ships t) (getFreeShipSlot t) = None \<and>
   getFreeShipSlot t \<notin> set (reservedSlots (serverEvents t)) \<and>
   (\<forall>m < getFreeShipSlot t.
      slot_get (ships t) m \<noteq> None \<or> m \<in> set (reservedSlots (serverEvents t)))"
proof -
  let ?r = "reservedSlots (serverEvents t)"
  have free: "\<not> slot_taken (ships t) ?r (getFreeShipSlot t)"
    unfolding getFreeShipSlot_def by (rule free_slot_from_not_taken)
  have low: "slot_taken (ships t) ?r m" if "m < getFreeShipSlot t" for m
    using that unfolding getFreeShipSlot_def
    by (intro free_slot_from_least [where n = 0]) simp_all
  from free low show ?thesis
    unfolding slot_taken_def by blast
qed

lemma getFreeShipSlot_turn_slots: "getFreeShipSlot turn_slots = 3"
  by (simp add: getFreeShipSlot_def turn_slots_def reservedSlots_def spawn_ev_def
      free_slot_from.simps slot_taken_def slot_get_def)

theorem getFreeShipSlot_lowest_free_witness:
  "getFreeShipSlot turn_slots = 3 \<and>
   slot_get (ships turn_slots) 3 = None \<and>
   3 \<notin> set (reservedSlots (serverEvents turn_slots)) \<and>
   slot_get (ships turn_slots) 2 \<noteq> None \<and>
   1 \<in> set (reservedSlots (serverEvents turn_slots))"
  using getFreeShipSlot_lowest_free [of turn_slots] getFreeShipSlot_turn_slots
  by (simp add: turn_slots_def reservedSlots_def spawn_ev_def slot_get_def)

subsection \<open>Recording input events\<close>

lemma scan_related_find:
  "scan_related xs ev =
     (case find (\<lambda>exEv. ev_type exEv = ev_type ev) xs of
        None \<Rightarrow> (False, False)
      | Some exEv \<Rightarrow> (True, ev_val exEv \<noteq> ev_val ev))"
  by (induction xs) simp_all

lemma slot_set_same: "slot_get xs i = Some v \<Longrightarrow> slot_set xs i v = xs"
  by (auto simp: slot_get_def slot_set_def split: if_splits) (metis list_update_id)

text \<open>
  C6. For every slot and every pending-event queue, addEvents with one event whose
  type and value equal those of the most recently queued event of that type for that
  slot leaves the Turn (hence the queue) unchanged and returns false.
\<close>

theorem addEvents_same_value_noop:
  assumes "slot_get (events t) shipId = Some q"
    and "find (\<lambda>exEv. ev_type exEv = ev_type ev) (rev q) = Some exEv"
    and "ev_val exEv = ev_val ev"
  shows "addEvents shipId [ev] t = (False, t)"
proof -
  have scan: "scan_related (rev q) ev = (True, False)"
    using assms(2,3) by (simp add: scan_related_find)
  have step: "add_event (q, False) ev = (q, False)"
    by (simp add: add_event_def scan)
  have "slot_set (events t) shipId q = events t"
    using assms(1) by (rule slot_set_same)
  then show ?thesis
    using assms(1) by (simp add: addEvents_def step)
qed

theorem addEvents_same_value_noop_witness:
  "addEvents 0 [\<lparr>ev_type = Gas, ev_val = True\<rparr>] turn_queue = (False, turn_queue)"
proof -
  have q: "slot_get (events turn_queue) 0 =
      Some [\<lparr>ev_type = Gas, ev_val = True\<rparr>, \<lparr>ev_type = TurnL, ev_val = True\<rparr>]"
    by (simp add: turn_queue_def slot_get_def)
  have f: "find (\<lambda>exEv. ev_type exEv = ev_type \<lparr>ev_type = Gas, ev_val = True\<rparr>)
      (rev [\<lparr>ev_type = Gas, ev_val = True\<rparr>, \<lparr>ev_type = TurnL, ev_val = True\<rparr>])
      = Some \<lparr>ev_type = Gas, ev_val = True\<rparr>"
    by simp
  show ?thesis
    by (rule addEvents_same_value_noop [OF q f]) simp
qed

subsection \<open>Checkpoint and lap detection\<close>

lemma new_Ship_checkpoint:
  "checkpoint (new_Ship c track dt ship body) =
     (case read_checkpoint c track (body_position body) of
        None \<Rightarrow> checkpoint ship | Some n \<Rightarrow> n)"
  by (simp add: new_Ship_def next_ship_def Let_def)

lemma new_Ship_input: "input (new_Ship c track dt ship body) = input ship"
  by (simp add: new_Ship_def next_ship_def Let_def)

lemma mutated_ship_forward:
  assumes "read_checkpoint c track (body_position body) = Some cp" and "checkpoint ship + 1 < cp"
  shows "mutated_ship c track dt ship body = lap_completed ship"
  using assms by (simp add: mutated_ship_def next_ship_def Let_def lap_completed_def)

lemma new_Ship_forward:
  assumes "read_checkpoint c track (body_position body) = Some cp" and "checkpoint ship + 1 < cp"
  shows "lap (new_Ship c track dt ship body) = lap ship + 1"
    and "currentLaptime (new_Ship c track dt ship body) =
      (if currentLaptime ship < lap ship + 1 then lap ship + 1 else currentLaptime ship)"
    and "laptimes (new_Ship c track dt ship body) =
      (if currentLaptime ship < lap ship + 1 then timed_laps c dt ship @ [Some 0]
       else timed_laps c dt ship)"
  using assms by (simp_all add: new_Ship_def next_ship_def Let_def timed_laps_def)

lemma read_checkpoint_None_iff:
  "read_checkpoint c track pos = None \<longleftrightarrow> no_checkpoint_at c track pos"
  by (auto simp: no_checkpoint_at_def read_checkpoint_def Let_def split: option.splits)

lemma reset_ship_fields:
  "position (reset_ship i s) = positionForShipId i" "velocity (reset_ship i s) = (0, 0)"
  "angle (reset_ship i s) = - pi / 2" "checkpoint (reset_ship i s) = 1" "lap (reset_ship i s) = 0"
  "currentLaptime (reset_ship i s) = 0" "laptimes (reset_ship i s) = [Some 0]"
  by (simp_all add: reset_ship_def)

lemma step_phase_turn_duo:
  "step_phase demo_collab [] 1000 turn_duo =
     Inr ([Some racer, Some stray], [Some (still_body (98, 52)), Some (still_body (101, 48))])"
  by (simp add: demo_defs evolve_defs)

text \<open>
  C1, as the code has it. For every call of evolve and every live vessel whose grid cell
  after the physics step yields a checkpoint greater than its old checkpoint plus 1:
  unless the match is reset in this tick, the output vessel's lap is the old lap plus 1
  and, if that lap exceeds currentLaptime, currentLaptime is that lap and a zero entry
  is appended to laptimes; and if the vessel thereby newly satisfies the finish
  predicate while the phase is IN_PROGRESS, the phase becomes FINISH_COUNTDOWN with
  the countdown FINISH_COUNTDOWN_S before the game state machine runs in the same
  tick, so that the output Turn is in FINISH_COUNTDOWN with countdown
  \<open>\<lceil>FINISH_COUNTDOWN_S - 1\<rceil>\<close>, or, when that is 0 or every live vessel has
  finished, in RESULTS_SCREEN with countdown RESULTS_SCREEN_S.
\<close>

theorem finish_line_forward:
  assumes "step_phase c bodies dt t = Inr (shs, bs)"
    and "slot_get shs i = Some ship" and "slot_get bs i = Some body"
    and "read_checkpoint c track (body_position body) = Some cp"
    and "checkpoint ship + 1 < cp"
  shows "\<exists>t'. evolve c track bodies dt t = Inr (t', bs) \<and>
     (\<not> match_reset t \<longrightarrow>
        (\<exists>s'. slot_get (ships t') i = Some s' \<and> lap s' = lap ship + 1 \<and>
           (if currentLaptime ship < lap ship + 1
            then currentLaptime s' = lap ship + 1 \<and> laptimes s' = timed_laps c dt ship @ [Some 0]
            else currentLaptime s' = currentLaptime ship \<and> laptimes s' = timed_laps c dt ship))) \<and>
     (state t = IN_PROGRESS \<and> \<not> hasFinishedRace c ship \<and> hasFinishedRace c (lap_completed ship) \<longrightarrow>
        (if \<lceil>FINISH_COUNTDOWN_S c - 1\<rceil> = 0 \<or>
            every_finished c (fst (snd (detect_phase c track dt t (shs, bs))))
         then state t' = RESULTS_SCREEN \<and> counter t' = RESULTS_SCREEN_S c
         else state t' = FINISH_COUNTDOWN \<and>
              counter t' = real_of_int \<lceil>FINISH_COUNTDOWN_S c - 1\<rceil>))"
proof -
  let ?n = "detect_phase c track dt t (shs, bs)"
  from evolve_result [OF assms(1), of track] obtain t' where
    ev: "evolve c track bodies dt t = Inr (t', bs)"
    and sl: "\<forall>i. slot_get (ships t') i =
        (case slot_get bs i of
           None \<Rightarrow> None
         | Some body \<Rightarrow>
             map_option (\<lambda>ship. if match_reset t then reset_ship i (new_Ship c track dt ship body)
                                else new_Ship c track dt ship body) (slot_get shs i))"
    and sc: "(state t', counter t') =
        snd (state_machine c (fst (snd ?n)) (fst ?n) (fst (snd (snd ?n))) (snd (snd (snd ?n))))"
    by blast
  have laps: "\<exists>s'. slot_get (ships t') i = Some s' \<and> lap s' = lap ship + 1 \<and>
           (if currentLaptime ship < lap ship + 1
            then currentLaptime s' = lap ship + 1 \<and> laptimes s' = timed_laps c dt ship @ [Some 0]
            else currentLaptime s' = currentLaptime ship \<and> laptimes s' = timed_laps c dt ship)"
    if "\<not> match_reset t"
  proof -
    from sl [rule_format, of i] assms(2,3) that
    have "slot_get (ships t') i = Some (new_Ship c track dt ship body)" by simp
    then show ?thesis
      by (simp add: new_Ship_forward [OF assms(4,5)])
  qed
  have phase: "if \<lceil>FINISH_COUNTDOWN_S c - 1\<rceil> = 0 \<or> every_finished c (fst (snd ?n))
         then state t' = RESULTS_SCREEN \<and> counter t' = RESULTS_SCREEN_S c
         else state t' = FINISH_COUNTDOWN \<and>
              counter t' = real_of_int \<lceil>FINISH_COUNTDOWN_S c - 1\<rceil>"
    if h: "state t = IN_PROGRESS \<and> \<not> hasFinishedRace c ship \<and> hasFinishedRace c (lap_completed ship)"
  proof -
    have fin: "finishes_now c track dt ship body"
      using h assms(4,5) by (simp add: finishes_now_def mutated_ship_forward [OF assms(4,5)])
    have mem: "(i, Some body) \<in> set (enumerate 0 bs)"
      using assms(3) by (auto simp: in_set_enumerate_eq slot_get_def split: if_splits)
    have "snd (snd ?n) = (FINISH_COUNTDOWN, FINISH_COUNTDOWN_S c)"
      unfolding detect_phase_def fst_conv snd_conv
      by (rule next_ships_state_finish [where ?shs0.0 = shs and k = i and ship = ship and body = body])
         (use mem assms(2) fin h in simp_all)
    then have "fst (snd (snd ?n)) = FINISH_COUNTDOWN" "snd (snd (snd ?n)) = FINISH_COUNTDOWN_S c"
      by simp_all
    with sc show ?thesis
      by (auto simp: state_machine_def Let_def split: if_splits)
  qed
  from ev laps phase show ?thesis by blast
qed

theorem finish_line_forward_witness:
  "\<exists>t'. evolve demo_collab demo_track [] 1000 turn_duo =
       Inr (t', [Some (still_body (98, 52)), Some (still_body (101, 48))]) \<and>
     (\<exists>s'. slot_get (ships t') 0 = Some s' \<and> lap s' = 2 \<and> currentLaptime s' = 2 \<and>
        laptimes s' = [Some 5, Some 8, Some 0]) \<and>
     state t' = FINISH_COUNTDOWN \<and> counter t' = 29"
proof -
  have s: "slot_get [Some racer, Some stray] 0 = Some racer"
    by (simp add: slot_get_def)
  have b: "slot_get [Some (still_body (98, 52)), Some (still_body (101, 48))] 0 =
      Some (still_body (98, 52))"
    by (simp add: slot_get_def)
  have r: "read_checkpoint demo_collab demo_track (body_position (still_body (98, 52))) = Some 9"
    by (simp add: demo_defs evolve_defs)
  have c: "checkpoint racer + 1 < 9"
    by (simp add: demo_defs)
  have e: "\<not> every_finished demo_collab (fst (snd (detect_phase demo_collab demo_track 1000 turn_duo
      ([Some racer, Some stray], [Some (still_body (98, 52)), Some (still_body (101, 48))]))))"
    by (simp add: demo_defs evolve_defs)
  from finish_line_forward [OF step_phase_turn_duo s b r c] e show ?thesis
    by (simp add: match_reset_def timed_laps_def lap_completed_def add_laptime_def
        demo_collab_def racer_def ship0_def turn_duo_def) 
qed

text \<open>
  C1 as stated fails: the only vessel of a match in progress crosses the line and
  finishes, and the output phase is RESULTS_SCREEN with the results countdown; and a
  vessel that crosses the line in the tick of the match reset comes out with lap 0.
\<close>

theorem finish_line_forward_counterexample:
  "evolve demo_collab demo_track [] 1000 turn_solo =
     Inr (\<lparr>ships = [Some (racer\<lparr>checkpoint := 9, lap := 2, currentLaptime := 2,
                                 laptimes := [Some 5, Some 8, Some 0]\<rparr>)],
           events = [], serverEvents = [], state = RESULTS_SCREEN, counter = 10\<rparr>,
          [Some (still_body (98, 52))]) \<and>
   evolve demo_collab demo_track [] 1000 turn_results_cross =
     Inr (\<lparr>ships = [Some (racer\<lparr>angle := - pi / 2, lap := 0, currentLaptime := 0,
                                 laptimes := [Some 0]\<rparr>)],
           events = [], serverEvents = [], state = IN_PROGRESS, counter = 0\<rparr>,
          [Some (still_body (98, 52))]) \<and>
   lap racer = 1 \<and> state turn_solo = IN_PROGRESS \<and>
   read_checkpoint demo_collab demo_track (98, 52) = Some 9"
  by (simp add: demo_defs evolve_defs)

text \<open>
  C8, as the code has it. evolve raises no exception. The grid lookup gives no
  checkpoint exactly when the cell is absent or holds a falsy value, the blank marker
  or a value that is not a number; and for every vessel whose position after the step
  maps to such a cell, the output vessel's checkpoint is its previous one, unless the
  match is reset in this tick, which sets it to 1.
\<close>

theorem checkpoint_unchanged_off_grid:
  "(\<exists>r. evolve c track bodies dt t = Inr r) \<and>
   (\<forall>pos. read_checkpoint c track pos = None \<longleftrightarrow> no_checkpoint_at c track pos) \<and>
   (\<forall>shs bs i ship body.
      step_phase c bodies dt t = Inr (shs, bs) \<and> slot_get shs i = Some ship \<and>
      slot_get bs i = Some body \<and> read_checkpoint c track (body_position body) = None \<longrightarrow>
      (\<exists>t' s'. evolve c track bodies dt t = Inr (t', bs) \<and> slot_get (ships t') i = Some s' \<and>
         checkpoint s' = (if match_reset t then 1 else checkpoint ship)))"
proof (intro conjI allI impI)
  from step_phase_total [of c bodies dt t] obtain shs bs where
    "step_phase c bodies dt t = Inr (shs, bs)" by blast
  from evolve_result [OF this, of track] show "\<exists>r. evolve c track bodies dt t = Inr r" by blast
next
  fix pos
  show "read_checkpoint c track pos = None \<longleftrightarrow> no_checkpoint_at c track pos"
    by (rule read_checkpoint_None_iff)
next
  fix shs bs i ship body
  assume h: "step_phase c bodies dt t = Inr (shs, bs) \<and> slot_get shs i = Some ship \<and>
      slot_get bs i = Some body \<and> read_checkpoint c track (body_position body) = None"
  then have sp: "step_phase c bodies dt t = Inr (shs, bs)" by simp
  from h have rc: "read_checkpoint c track (body_position body) = None" by simp
  from evolve_result [OF sp, of track] obtain t' where
    ev: "evolve c track bodies dt t = Inr (t', bs)"
    and sl: "\<forall>i. slot_get (ships t') i =
        (case slot_get bs i of
           None \<Rightarrow> None
         | Some body \<Rightarrow>
             map_option (\<lambda>ship. if match_reset t then reset_ship i (new_Ship c track dt ship body)
                                else new_Ship c track dt ship body) (slot_get shs i))"
    by blast
  from sl [rule_format, of i] h
  have "slot_get (ships t') i = Some (if match_reset t then reset_ship i (new_Ship c track dt ship body)
                                else new_Ship c track dt ship body)" by simp
  moreover have "checkpoint (if match_reset t then reset_ship i (new_Ship c track dt ship body)
                                else new_Ship c track dt ship body) = (if match_reset t then 1 else checkpoint ship)"
    by (simp add: reset_ship_fields new_Ship_checkpoint rc)
  ultimately show "\<exists>t' s'. evolve c track bodies dt t = Inr (t', bs) \<and> slot_get (ships t') i = Some s' \<and>
         checkpoint s' = (if match_reset t then 1 else checkpoint ship)"
    using ev by blast
qed

lemma step_phase_turn_parked:
  "step_phase demo_collab [] 1000 turn_parked = Inr ([Some parked], [Some (still_body (105, 52))])"
  by (simp add: demo_defs evolve_defs)

theorem checkpoint_unchanged_off_grid_witness:
  "(\<exists>t' s'. evolve demo_collab demo_track [] 1000 turn_duo =
       Inr (t', [Some (still_body (98, 52)), Some (still_body (101, 48))]) \<and>
     slot_get (ships t') 1 = Some s' \<and> checkpoint s' = 4) \<and>
   (\<exists>t' s'. evolve demo_collab demo_track [] 1000 turn_parked =
       Inr (t', [Some (still_body (105, 52))]) \<and>
     slot_get (ships t') 0 = Some s' \<and> checkpoint s' = 4) \<and>
   lookup_cell demo_track (cell_index demo_collab 48) (cell_index demo_collab 101) = None \<and>
   lookup_cell demo_track (cell_index demo_collab 52) (cell_index demo_collab 105) =
     Some (CStr '' '') \<and>
   string_to_Number demo_collab '' '' = Some 0"
proof -
  have r1: "read_checkpoint demo_collab demo_track (body_position (still_body (101, 48))) = None"
    by (simp add: read_checkpoint_def still_body_def lookup_cell_def cell_index_def
        demo_collab_def demo_track_def Let_def)
  have h1: "step_phase demo_collab [] 1000 turn_duo =
       Inr ([Some racer, Some stray], [Some (still_body (98, 52)), Some (still_body (101, 48))]) \<and>
     slot_get [Some racer, Some stray] 1 = Some stray \<and>
     slot_get [Some (still_body (98, 52)), Some (still_body (101, 48))] 1 =
       Some (still_body (101, 48)) \<and>
     read_checkpoint demo_collab demo_track (body_position (still_body (101, 48))) = None"
    by (simp add: step_phase_turn_duo slot_get_def r1)
  have r2: "read_checkpoint demo_collab demo_track (body_position (still_body (105, 52))) = None"
    by (simp add: read_checkpoint_def still_body_def lookup_cell_def cell_index_def
        demo_collab_def demo_track_def Let_def)
  have h2: "step_phase demo_collab [] 1000 turn_parked =
       Inr ([Some parked], [Some (still_body (105, 52))]) \<and>
     slot_get [Some parked] 0 = Some parked \<and>
     slot_get [Some (still_body (105, 52))] 0 = Some (still_body (105, 52)) \<and>
     read_checkpoint demo_collab demo_track (body_position (still_body (105, 52))) = None"
    by (simp add: step_phase_turn_parked slot_get_def r2)
  have c: "lookup_cell demo_track (cell_index demo_collab 48) (cell_index demo_collab 101) = None \<and>
    lookup_cell demo_track (cell_index demo_collab 52) (cell_index demo_collab 105) =
      Some (CStr '' '') \<and>
    string_to_Number demo_collab '' '' = Some 0"
    by (simp add: lookup_cell_def cell_index_def demo_collab_def demo_track_def digit_Number_def)
  from checkpoint_unchanged_off_grid [of demo_collab demo_track "[]" 1000 turn_duo,
      THEN conjunct2, THEN conjunct2, rule_format, OF h1]
    checkpoint_unchanged_off_grid [of demo_collab demo_track "[]" 1000 turn_parked,
      THEN conjunct2, THEN conjunct2, rule_format, OF h2]
    c
  show ?thesis by (simp add: match_reset_def turn_duo_def turn_parked_def stray_def parked_def)
qed

text \<open>
  C8 as stated fails: on the results screen with the countdown reaching zero, a vessel
  at checkpoint 4 over an absent cell comes out at checkpoint 1.
\<close>

theorem checkpoint_unchanged_off_grid_counterexample:
  "evolve demo_collab demo_track [] 1000 turn_results_pair =
     Inr (\<lparr>ships = [None, Some (stray\<lparr>angle := - pi / 2, checkpoint := 1\<rparr>)],
           events = [], serverEvents = [], state = IN_PROGRESS, counter = 0\<rparr>,
          [None, Some (still_body (101, 48))]) \<and>
   checkpoint stray = 4 \<and>
   lookup_cell demo_track (cell_index demo_collab 48) (cell_index demo_collab 101) = None"
  by (simp add: demo_defs evolve_defs)

subsection \<open>The game state machine\<close>

text \<open>
  C2. For every Turn in RESULTS_SCREEN whose countdown reaches zero in evolve, the
  output phase is IN_PROGRESS, the output has a vessel exactly in the slots that were
  live, and each is at the spawn pose of its slot with the starting heading,
  checkpoint 1, lap 0, currentLaptime 0 and laptimes [0].
\<close>

theorem results_screen_reset:
  assumes "state t = RESULTS_SCREEN" and "\<lceil>counter t - 1\<rceil> = 0"
  shows "\<exists>t' bs. evolve c track bodies dt t = Inr (t', bs) \<and> state t' = IN_PROGRESS \<and>
     (\<forall>i. slot_get (ships t') i \<noteq> None \<longleftrightarrow> slot_get (fst (admin_phase bodies t)) i \<noteq> None) \<and>
     (\<forall>i s. slot_get (ships t') i = Some s \<longrightarrow>
        position s = positionForShipId i \<and> velocity s = (0, 0) \<and> angle s = - pi / 2 \<and>
        checkpoint s = 1 \<and> lap s = 0 \<and> currentLaptime s = 0 \<and> laptimes s = [Some 0])"
proof -
  from step_phase_total [of c bodies dt t] obtain shs bs where
    sp: "step_phase c bodies dt t = Inr (shs, bs)" and cov: "bodies_cover shs bs"
    and occ: "\<forall>j. slot_get shs j \<noteq> None \<longleftrightarrow> slot_get (fst (admin_phase bodies t)) j \<noteq> None"
    by blast
  have reset: "match_reset t" using assms by (simp add: match_reset_def)
  let ?n = "detect_phase c track dt t (shs, bs)"
  from evolve_result [OF sp, of track] obtain t' where
    ev: "evolve c track bodies dt t = Inr (t', bs)"
    and sl: "\<forall>i. slot_get (ships t') i =
        (case slot_get bs i of
           None \<Rightarrow> None
         | Some body \<Rightarrow>
             map_option (\<lambda>ship. if match_reset t then reset_ship i (new_Ship c track dt ship body)
                                else new_Ship c track dt ship body) (slot_get shs i))"
    and sc: "(state t', counter t') =
        snd (state_machine c (fst (snd ?n)) (fst ?n) (fst (snd (snd ?n))) (snd (snd (snd ?n))))"
    by blast
  have "snd (snd ?n) = (RESULTS_SCREEN, counter t)"
    using assms(1) by (simp add: detect_phase_def next_ships_state_other)
  then have "fst (snd (snd ?n)) = RESULTS_SCREEN" "snd (snd (snd ?n)) = counter t"
    by simp_all
  with sc assms(2) have st: "state t' = IN_PROGRESS"
    by (simp add: state_machine_def Let_def)
  have o: "slot_get (ships t') i \<noteq> None \<longleftrightarrow> slot_get (fst (admin_phase bodies t)) i \<noteq> None" for i
  proof (cases "slot_get shs i")
    case None
    with occ [rule_format, of i] sl [rule_format, of i] show ?thesis
      by (simp split: option.split)
  next
    case (Some ship)
    with cov obtain body where "slot_get bs i = Some body" by (auto simp: bodies_cover_def)
    with Some occ [rule_format, of i] sl [rule_format, of i] show ?thesis by simp
  qed
  have f: "position s = positionForShipId i \<and> velocity s = (0, 0) \<and> angle s = - pi / 2 \<and>
        checkpoint s = 1 \<and> lap s = 0 \<and> currentLaptime s = 0 \<and> laptimes s = [Some 0]"
    if "slot_get (ships t') i = Some s" for i s
  proof -
    from that sl [rule_format, of i] reset obtain s0 where "s = reset_ship i s0"
      by (auto split: option.splits)
    then show ?thesis by (simp add: reset_ship_fields)
  qed
  from ev st o f show ?thesis by blast
qed

theorem results_screen_reset_witness:
  "evolve demo_collab demo_track [] 1000 turn_results =
     Inr (\<lparr>ships = [Some (stray\<lparr>position := (98, 52), angle := - pi / 2, checkpoint := 1\<rparr>)],
           events = [], serverEvents = [], state = IN_PROGRESS, counter = 0\<rparr>,
          [Some (still_body (101, 48))])"
proof -
  have st: "state turn_results = RESULTS_SCREEN" by (simp add: turn_results_def)
  have cn: "\<lceil>counter turn_results - 1\<rceil> = 0" by (simp add: turn_results_def)
  from results_screen_reset [OF st cn, of demo_collab demo_track "[]" 1000] show ?thesis
    by (simp add: demo_defs evolve_defs)
qed

subsection \<open>Spawning\<close>

text \<open>
  C9. For every SPAWN_PLAYER event consumed by evolve with slot k, the new vessel is
  created at the spawn pose (98 + 3 k, 52 for even k and 48 for odd k) with the
  starting heading, checkpoint 1, lap 0, currentLaptime 0, laptimes [0] and an
  all-false input; its body is created at the same pose and heading.
\<close>

theorem spawn_player_vessel:
  assumes "sev_type sev = SPAWN_PLAYER"
  shows "slot_get (fst (consume_server_event (shs, bodies) sev)) (sev_val sev) =
      Some \<lparr>position = (98 + 3 * real (sev_val sev), if even (sev_val sev) then 52 else 48),
            velocity = (0, 0), angle = - pi / 2,
            username = sev_username sev, color = sev_color sev,
            input = \<lparr>gas = False, boost = False, leanL = False, leanR = False,
                      turnL = False, turnR = False\<rparr>,
            checkpoint = 1, lap = 0, currentLaptime = 0, laptimes = [Some 0]\<rparr> \<and>
    slot_get (snd (consume_server_event (shs, bodies) sev)) (sev_val sev) =
      Some \<lparr>body_position = (98 + 3 * real (sev_val sev), if even (sev_val sev) then 52 else 48),
            body_velocity = (0, 0), body_angle = - pi / 2, body_force = (0, 0),
            body_angularForce = 0\<rparr>"
  using assms
  by (simp add: consume_server_event_def Let_def slot_get_slot_set spawn_Ship_def new_Body_def
      positionForShipId_def new_PlayerInput_def even_iff_mod_2_eq_zero)

theorem spawn_player_vessel_witness:
  "slot_get (fst (admin_phase [] turn_spawn)) 3 =
      Some \<lparr>position = (107, 48), velocity = (0, 0), angle = - pi / 2,
            username = ''bob'', color = ''blue'',
            input = \<lparr>gas = False, boost = False, leanL = False, leanR = False,
                      turnL = False, turnR = False\<rparr>,
            checkpoint = 1, lap = 0, currentLaptime = 0, laptimes = [Some 0]\<rparr>"
proof -
  have k: "sev_type (spawn_ev 3) = SPAWN_PLAYER" by (simp add: spawn_ev_def)
  have a: "admin_phase [] turn_spawn = consume_server_event ([], []) (spawn_ev 3)"
    by (simp add: admin_phase_def turn_spawn_def consume_server_events_def create_bodies_def)
  from spawn_player_vessel [OF k, of "[]" "[]"] show ?thesis
    by (simp add: a spawn_ev_def)
qed

lemma consume_server_events_snoc:
  "consume_server_events acc (sevs @ [sev]) =
     consume_server_event (consume_server_events acc sevs) sev"
  by (simp add: consume_server_events_def)

lemma consume_server_events_slot:
  "slot_get (fst (consume_server_events (shs, bodies) sevs)) j =
     (case last_admin j sevs of
        None \<Rightarrow> slot_get shs j
      | Some sev \<Rightarrow>
          if sev_type sev = SPAWN_PLAYER
          then Some (spawn_Ship (new_Body (positionForShipId j) (- pi / 2)) sev)
          else None)"
proof (induction sevs rule: rev_induct)
  case Nil
  show ?case by (simp add: consume_server_events_def last_admin_def)
next
  case (snoc sev sevs)
  have la: "last_admin j (sevs @ [sev]) =
      (if sev_val sev = j \<and> sev_type sev \<noteq> OTHER_EVENT then Some sev else last_admin j sevs)"
    by (simp add: last_admin_def)
  show ?case
  proof (cases "sev_type sev")
    case SPAWN_PLAYER
    then show ?thesis using snoc
      by (simp add: consume_server_events_snoc consume_server_event_def Let_def la
          slot_get_slot_set)
  next
    case DESTROY_PLAYER
    then show ?thesis using snoc
      by (simp add: consume_server_events_snoc consume_server_event_def Let_def la
          slot_get_slot_delete)
  next
    case OTHER_EVENT
    then show ?thesis using snoc
      by (simp add: consume_server_events_snoc consume_server_event_def Let_def la)
  qed
qed

lemma find_Some_mem: "find P xs = Some x \<Longrightarrow> x \<in> set xs \<and> P x"
  by (induction xs) (auto split: if_splits)

lemma last_admin_mem:
  "last_admin j sevs = Some sev \<Longrightarrow> sev \<in> set sevs \<and> sev_val sev = j \<and> sev_type sev \<noteq> OTHER_EVENT"
  unfolding last_admin_def by (auto dest: find_Some_mem)

lemma distinct_spawn_same:
  assumes "distinct (reservedSlots sevs)"
    and "a \<in> set sevs" "b \<in> set sevs"
    and "sev_type a = SPAWN_PLAYER" "sev_type b = SPAWN_PLAYER" "sev_val a = sev_val b"
  shows "a = b"
  using assms unfolding reservedSlots_def
proof (induction sevs)
  case Nil
  then show ?case by simp
next
  case (Cons x xs)
  show ?case
  proof (cases "sev_type x = SPAWN_PLAYER")
    case True
    with Cons.prems(1) have nx: "sev_val x \<notin> sev_val ` {s \<in> set xs. sev_type s = SPAWN_PLAYER}"
      and d: "distinct (map sev_val (filter (\<lambda>sev. sev_type sev = SPAWN_PLAYER) xs))"
      by simp_all
    show ?thesis
    proof (cases "a = x")
      case ax: True
      show ?thesis
      proof (cases "b = x")
        case True
        with ax show ?thesis by simp
      next
        case False
        with Cons.prems have "b \<in> {s \<in> set xs. sev_type s = SPAWN_PLAYER}" by simp
        then have "sev_val b \<in> sev_val ` {s \<in> set xs. sev_type s = SPAWN_PLAYER}"
          by (rule imageI)
        with nx ax Cons.prems(6) show ?thesis by simp
      qed
    next
      case anx: False
      with Cons.prems have ain: "a \<in> set xs" by simp
      show ?thesis
      proof (cases "b = x")
        case True
        from ain Cons.prems have "a \<in> {s \<in> set xs. sev_type s = SPAWN_PLAYER}" by simp
        then have "sev_val a \<in> sev_val ` {s \<in> set xs. sev_type s = SPAWN_PLAYER}"
          by (rule imageI)
        with nx True Cons.prems(6) show ?thesis by simp
      next
        case False
        with Cons.prems have "b \<in> set xs" by simp
        with Cons.IH [OF d ain] Cons.prems show ?thesis by simp
      qed
    qed
  next
    case False
    with Cons.prems have "a \<in> set xs" "b \<in> set xs"
      and "distinct (map sev_val (filter (\<lambda>sev. sev_type sev = SPAWN_PLAYER) xs))" by auto
    with Cons.IH Cons.prems show ?thesis by simp
  qed
qed

text \<open>
  C5, as the code has it. evolve performs no collision avoidance: a SPAWN_PLAYER event
  puts its vessel into exactly the slot it names, whatever the slot held, and leaves
  every other slot alone; after the whole queue a slot holds what the last
  SPAWN_PLAYER or DESTROY_PLAYER event naming it left there. When the slots named by
  the queued SPAWN_PLAYER events are pairwise distinct and none of them holds a live
  vessel, a vessel that was live is afterwards the same vessel, or gone exactly when a
  DESTROY_PLAYER event names its slot, and the slot of every SPAWN_PLAYER event holds
  that event's own vessel, or nothing if a DESTROY_PLAYER event of the queue names it.
\<close>

theorem spawn_slots_as_named:
  "(sev_type sev = SPAWN_PLAYER \<longrightarrow>
      (\<forall>j. slot_get (fst (consume_server_event (shs, bodies) sev)) j =
         (if j = sev_val sev
          then Some (spawn_Ship (new_Body (positionForShipId (sev_val sev)) (- pi / 2)) sev)
          else slot_get shs j))) \<and>
   (\<forall>j. slot_get (fst (consume_server_events (shs, bodies) sevs)) j =
      (case last_admin j sevs of
         None \<Rightarrow> slot_get shs j
       | Some l \<Rightarrow>
           if sev_type l = SPAWN_PLAYER
           then Some (spawn_Ship (new_Body (positionForShipId j) (- pi / 2)) l)
           else None)) \<and>
   (distinct (reservedSlots sevs) \<and> (\<forall>k \<in> set (reservedSlots sevs). slot_get shs k = None) \<longrightarrow>
      (\<forall>j ship. slot_get shs j = Some ship \<longrightarrow>
         slot_get (fst (consume_server_events (shs, bodies) sevs)) j =
           (if \<exists>d \<in> set sevs. sev_type d = DESTROY_PLAYER \<and> sev_val d = j then None
            else Some ship)) \<and>
      (\<forall>s \<in> set sevs. sev_type s = SPAWN_PLAYER \<longrightarrow>
         (slot_get (fst (consume_server_events (shs, bodies) sevs)) (sev_val s) =
            Some (spawn_Ship (new_Body (positionForShipId (sev_val s)) (- pi / 2)) s) \<or>
          slot_get (fst (consume_server_events (shs, bodies) sevs)) (sev_val s) = None) \<and>
         ((\<forall>d \<in> set sevs. sev_type d = DESTROY_PLAYER \<longrightarrow> sev_val d \<noteq> sev_val s) \<longrightarrow>
          slot_get (fst (consume_server_events (shs, bodies) sevs)) (sev_val s) =
            Some (spawn_Ship (new_Body (positionForShipId (sev_val s)) (- pi / 2)) s))))"
proof (intro conjI impI allI ballI)
  fix j assume "sev_type sev = SPAWN_PLAYER"
  then show "slot_get (fst (consume_server_event (shs, bodies) sev)) j =
         (if j = sev_val sev
          then Some (spawn_Ship (new_Body (positionForShipId (sev_val sev)) (- pi / 2)) sev)
          else slot_get shs j)"
    by (simp add: consume_server_event_def Let_def slot_get_slot_set)
next
  fix j
  show "slot_get (fst (consume_server_events (shs, bodies) sevs)) j =
      (case last_admin j sevs of
         None \<Rightarrow> slot_get shs j
       | Some l \<Rightarrow>
           if sev_type l = SPAWN_PLAYER
           then Some (spawn_Ship (new_Body (positionForShipId j) (- pi / 2)) l)
           else None)"
    by (rule consume_server_events_slot)
next
  fix j ship
  assume h: "distinct (reservedSlots sevs) \<and> (\<forall>k \<in> set (reservedSlots sevs). slot_get shs k = None)"
    and live: "slot_get shs j = Some ship"
  show "slot_get (fst (consume_server_events (shs, bodies) sevs)) j =
           (if \<exists>d \<in> set sevs. sev_type d = DESTROY_PLAYER \<and> sev_val d = j then None
            else Some ship)"
  proof (cases "last_admin j sevs")
    case None
    then have "\<not> (\<exists>d \<in> set sevs. sev_type d = DESTROY_PLAYER \<and> sev_val d = j)"
      by (auto simp: last_admin_def find_None_iff)
    with None live show ?thesis by (simp add: consume_server_events_slot)
  next
    case (Some l)
    from last_admin_mem [OF Some] have m: "l \<in> set sevs" "sev_val l = j" "sev_type l \<noteq> OTHER_EVENT"
      by simp_all
    have ns: "sev_type l \<noteq> SPAWN_PLAYER"
    proof
      assume "sev_type l = SPAWN_PLAYER"
      with m have "j \<in> set (reservedSlots sevs)" by (force simp: reservedSlots_def)
      with h live show False by simp
    qed
    with m have "sev_type l = DESTROY_PLAYER" by (cases "sev_type l") simp_all
    with m have "\<exists>d \<in> set sevs. sev_type d = DESTROY_PLAYER \<and> sev_val d = j" by blast
    with Some ns show ?thesis by (simp add: consume_server_events_slot)
  qed
next
  fix s
  assume h: "distinct (reservedSlots sevs) \<and> (\<forall>k \<in> set (reservedSlots sevs). slot_get shs k = None)"
    and m: "s \<in> set sevs" and sp: "sev_type s = SPAWN_PLAYER"
  let ?k = "sev_val s"
  from m sp have "last_admin ?k sevs \<noteq> None"
    by (auto simp: last_admin_def find_None_iff)
  then obtain l where l: "last_admin ?k sevs = Some l" by auto
  from last_admin_mem [OF l] have lm: "l \<in> set sevs" "sev_val l = ?k" "sev_type l \<noteq> OTHER_EVENT"
    by simp_all
  have own: "sev_type l = SPAWN_PLAYER \<Longrightarrow> l = s"
    using distinct_spawn_same [of sevs l s] h lm m sp by simp
  show "slot_get (fst (consume_server_events (shs, bodies) sevs)) ?k =
            Some (spawn_Ship (new_Body (positionForShipId ?k) (- pi / 2)) s) \<or>
        slot_get (fst (consume_server_events (shs, bodies) sevs)) ?k = None"
    using l own by (cases "sev_type l = SPAWN_PLAYER") (simp_all add: consume_server_events_slot)
  show "slot_get (fst (consume_server_events (shs, bodies) sevs)) ?k =
            Some (spawn_Ship (new_Body (positionForShipId ?k) (- pi / 2)) s)"
    if nd: "\<forall>d \<in> set sevs. sev_type d = DESTROY_PLAYER \<longrightarrow> sev_val d \<noteq> ?k"
  proof -
    from nd lm have "sev_type l \<noteq> DESTROY_PLAYER" by auto
    with lm have "sev_type l = SPAWN_PLAYER" by (cases "sev_type l") simp_all
    with own l show ?thesis by (simp add: consume_server_events_slot)
  qed
qed

theorem spawn_slots_as_named_witness:
  "slot_get (fst (consume_server_events (ships turn_slots, []) (serverEvents turn_slots))) 0 =
     Some ship0 \<and>
   slot_get (fst (consume_server_events (ships turn_slots, []) (serverEvents turn_slots))) 1 =
     Some (spawn_Ship (new_Body (101, 48) (- pi / 2)) (spawn_ev 1)) \<and>
   slot_get (fst (consume_server_events (ships turn_slots, []) (serverEvents turn_slots))) 4 =
     Some (spawn_Ship (new_Body (110, 52) (- pi / 2)) (spawn_ev 4)) \<and>
   slot_get (fst (consume_server_event ([Some racer], []) (spawn_ev 0))) 0 =
     Some (spawn_Ship (new_Body (98, 52) (- pi / 2)) (spawn_ev 0))"
proof -
  have h: "distinct (reservedSlots (serverEvents turn_slots)) \<and>
      (\<forall>k \<in> set (reservedSlots (serverEvents turn_slots)). slot_get (ships turn_slots) k = None)"
    by (simp add: turn_slots_def reservedSlots_def spawn_ev_def slot_get_def)
  have k: "sev_type (spawn_ev 0) = SPAWN_PLAYER" by (simp add: spawn_ev_def)
  note q = spawn_slots_as_named [where shs = "ships turn_slots" and bodies = "[]"
      and sevs = "serverEvents turn_slots", THEN conjunct2, THEN conjunct2, THEN mp, OF h]
  note qa = q [THEN conjunct1, rule_format]
  note qb = q [THEN conjunct2, rule_format]
  note e = spawn_slots_as_named [where sev = "spawn_ev 0" and shs = "[Some racer]"
      and bodies = "[]", THEN conjunct1, rule_format, OF k, of 0]
  have live: "slot_get (ships turn_slots) 0 = Some ship0"
    by (simp add: turn_slots_def slot_get_def)
  have m1: "spawn_ev 1 \<in> set (serverEvents turn_slots)"
    and m4: "spawn_ev 4 \<in> set (serverEvents turn_slots)"
    by (simp_all add: turn_slots_def)
  have t: "sev_type (spawn_ev 1) = SPAWN_PLAYER" "sev_type (spawn_ev 4) = SPAWN_PLAYER"
    by (simp_all add: spawn_ev_def)
  have nd: "\<forall>d \<in> set (serverEvents turn_slots). sev_type d = DESTROY_PLAYER \<longrightarrow> sev_val d \<noteq> k" for k
    by (simp add: turn_slots_def spawn_ev_def)
  from qa [OF live] qb [OF m1 t(1), THEN conjunct2, THEN mp, OF nd]
    qb [OF m4 t(2), THEN conjunct2, THEN mp, OF nd] e
  show ?thesis
    by (simp add: turn_slots_def spawn_ev_def positionForShipId_def)
qed

text \<open>
  C5 as stated fails: a SPAWN_PLAYER event naming the slot of a live vessel replaces
  that vessel, and two SPAWN_PLAYER events naming slot 0 both land in slot 0, where
  only the second vessel remains.
\<close>

theorem spawn_collision_counterexample:
  "slot_get (ships turn_respawn) 0 = Some racer \<and>
   slot_get (fst (admin_phase [] turn_respawn)) 0 =
     Some (spawn_Ship (new_Body (98, 52) (- pi / 2)) (spawn_ev 0)) \<and>
   serverEvents turn_two_spawns = [spawn_ev 0, (spawn_ev 0)\<lparr>sev_username := ''cat''\<rparr>] \<and>
   fst (admin_phase [] turn_two_spawns) =
     [Some (spawn_Ship (new_Body (98, 52) (- pi / 2)) ((spawn_ev 0)\<lparr>sev_username := ''cat''\<rparr>))]"
  by (simp add: turn_respawn_def turn_two_spawns_def admin_phase_def create_bodies_def
      ensure_body_def spawn_ev_def consume_server_events_def consume_server_event_def
      slot_get_def slot_set_def spawn_Ship_def new_Body_def positionForShipId_def Let_def
      racer_def ship0_def resetBody_def)

subsection \<open>Applying player inputs\<close>

lemma evolve_input_kept:
  assumes ip: "input_phase c bodies t = Inr (shs, bs)" and cov: "bodies_cover shs bs"
    and s: "slot_get shs i = Some ship"
  shows "\<exists>t' bs' s'. evolve c track bodies dt t = Inr (t', bs') \<and>
     slot_get (ships t') i = Some s' \<and> input s' = input ship"
proof -
  have sp: "step_phase c bodies dt t = Inr (shs, step_bodies c dt bs)"
    using ip by (simp add: step_phase_def)
  from cov s obtain body where b: "slot_get bs i = Some body"
    by (auto simp: bodies_cover_def)
  from evolve_result [OF sp, of track] obtain t' where
    ev: "evolve c track bodies dt t = Inr (t', step_bodies c dt bs)"
    and sl: "\<forall>i. slot_get (ships t') i =
        (case slot_get (step_bodies c dt bs) i of
           None \<Rightarrow> None
         | Some body \<Rightarrow>
             map_option (\<lambda>ship. if match_reset t then reset_ship i (new_Ship c track dt ship body)
                                else new_Ship c track dt ship body) (slot_get shs i))"
    by blast
  let ?b = "world_step c (dt / 1000) bs i body"
  from sl [rule_format, of i] s b
  have "slot_get (ships t') i =
      Some (if match_reset t then reset_ship i (new_Ship c track dt ship ?b)
            else new_Ship c track dt ship ?b)"
    by (simp add: slot_get_step_bodies)
  moreover have "input (if match_reset t then reset_ship i (new_Ship c track dt ship ?b)
            else new_Ship c track dt ship ?b) = input ship"
    by (simp add: new_Ship_input reset_ship_def)
  ultimately show ?thesis using ev by blast
qed

lemma apply_input_not_eligible:
  "\<not> eligible c st ship \<Longrightarrow>
   apply_input c st evs ship body =
     (ship\<lparr>input := new_PlayerInput\<rparr>, air_drag (sync_body ship body))"
  by (auto simp: apply_input_def eligible_def Let_def)

lemma apply_input_eligible:
  "eligible c st ship \<Longrightarrow>
   apply_input c st evs ship body =
     (ship\<lparr>input := working_input ship evs\<rparr>,
      air_drag (thrust c (working_input ship evs) (steer (working_input ship evs) (sync_body ship body))))"
  by (simp add: apply_input_def eligible_def working_input_def Let_def)

text \<open>
  C4. For every occupied slot whose vessel has finished the race, or when the match is
  neither IN_PROGRESS nor FINISH_COUNTDOWN, no control force and no heading change
  reaches the body (it holds the vessel's pose, the damped velocity and zero forces),
  the input stored on the vessel is the all-false one, and so is the input of the
  vessel in the output Turn.
\<close>

theorem controls_gated:
  assumes "slot_get (fst (admin_phase bodies t)) i = Some ship"
    and "\<not> eligible c (state t) ship"
  shows "\<exists>shs bs body. input_phase c bodies t = Inr (shs, bs) \<and>
     slot_get (snd (admin_phase bodies t)) i = Some body \<and>
     slot_get shs i = Some (ship\<lparr>input := new_PlayerInput\<rparr>) \<and>
     slot_get bs i =
       Some (body\<lparr>body_position := position ship,
                  body_velocity := scale_vec 0.99 (velocity ship),
                  body_angle := angle ship, body_force := (0, 0), body_angularForce := 0\<rparr>) \<and>
     (\<exists>t' bs' s'. evolve c track bodies dt t = Inr (t', bs') \<and>
        slot_get (ships t') i = Some s' \<and>
        input s' = \<lparr>gas = False, boost = False, leanL = False, leanR = False,
                     turnL = False, turnR = False\<rparr>)"
proof -
  from input_phase_slots [of c bodies t] obtain shs bs where
    r: "input_phase c bodies t = Inr (shs, bs)" and cov: "bodies_cover shs bs"
    and d: "\<forall>j ship. slot_get (fst (admin_phase bodies t)) j = Some ship \<longrightarrow>
        (\<exists>body. slot_get (snd (admin_phase bodies t)) j = Some body \<and>
           slot_get shs j =
             Some (fst (apply_input c (state t) (player_events (events t) j) ship body)) \<and>
           slot_get bs j =
             Some (snd (apply_input c (state t) (player_events (events t) j) ship body)))"
    by blast
  from d assms(1) obtain body where
    b: "slot_get (snd (admin_phase bodies t)) i = Some body"
    and s1: "slot_get shs i =
             Some (fst (apply_input c (state t) (player_events (events t) i) ship body))"
    and b1: "slot_get bs i =
             Some (snd (apply_input c (state t) (player_events (events t) i) ship body))"
    by blast
  have off: "apply_input c (state t) (player_events (events t) i) ship body =
      (ship\<lparr>input := new_PlayerInput\<rparr>, air_drag (sync_body ship body))"
    using assms(2) by (rule apply_input_not_eligible)
  have s2: "slot_get shs i = Some (ship\<lparr>input := new_PlayerInput\<rparr>)"
    using s1 by (simp add: off)
  have b2: "slot_get bs i =
       Some (body\<lparr>body_position := position ship,
                  body_velocity := scale_vec 0.99 (velocity ship),
                  body_angle := angle ship, body_force := (0, 0), body_angularForce := 0\<rparr>)"
    using b1 by (simp add: off air_drag_def sync_body_def)
  from evolve_input_kept [OF r cov s2, of track dt] obtain t' bs' s' where
    "evolve c track bodies dt t = Inr (t', bs')" "slot_get (ships t') i = Some s'"
    "input s' = new_PlayerInput" by auto
  then have "\<exists>t' bs' s'. evolve c track bodies dt t = Inr (t', bs') \<and>
        slot_get (ships t') i = Some s' \<and>
        input s' = \<lparr>gas = False, boost = False, leanL = False, leanR = False,
                     turnL = False, turnR = False\<rparr>"
    by (auto simp: new_PlayerInput_def)
  with r b s2 b2 show ?thesis by blast
qed

theorem controls_gated_witness:
  "input_phase demo_collab [] turn_finished =
     Inr ([Some (finished_racer\<lparr>input := new_PlayerInput\<rparr>)], [Some (still_body (98, 52))]) \<and>
   gas (input finished_racer) \<and>
   evolve demo_collab demo_track [] 1000 turn_finished =
     Inr (\<lparr>ships = [Some (finished_racer\<lparr>input := new_PlayerInput, checkpoint := 9, lap := 3,
                                           currentLaptime := 3,
                                           laptimes := [Some 5, Some 7, Some 0, Some 0]\<rparr>)],
           events = [], serverEvents = [], state = IN_PROGRESS, counter = - 1\<rparr>,
          [Some (still_body (98, 52))])"
proof -
  have a: "slot_get (fst (admin_phase [] turn_finished)) 0 = Some finished_racer"
    by (simp add: turn_finished_def admin_phase_def consume_server_events_def slot_get_def)
  have e: "\<not> eligible demo_collab (state turn_finished) finished_racer"
    by (simp add: eligible_def demo_collab_def finished_racer_def)
  from controls_gated [OF a e, of demo_track 1000] show ?thesis
    by (simp add: demo_defs evolve_defs turn_finished_def finished_racer_def)
qed

lemma foldl_applyPlayerEvent_turnL:
  "turnL (foldl applyPlayerEvent inp evs) \<Longrightarrow>
   turnL inp \<or> (\<exists>ev \<in> set evs. ev_type ev = TurnL \<and> ev_val ev)"
proof (induction evs arbitrary: inp)
  case Nil
  then show ?case by simp
next
  case (Cons ev evs)
  have one: "turnL (applyPlayerEvent inp ev) \<Longrightarrow> turnL inp \<or> (ev_type ev = TurnL \<and> ev_val ev)"
    by (cases "ev_type ev") (simp_all add: applyPlayerEvent_def)
  from Cons.prems have "turnL (foldl applyPlayerEvent (applyPlayerEvent inp ev) evs)" by simp
  from Cons.IH [OF this] one show ?case
    by auto
qed

lemma foldl_applyPlayerEvent_turnR:
  "turnR (foldl applyPlayerEvent inp evs) \<Longrightarrow>
   turnR inp \<or> (\<exists>ev \<in> set evs. ev_type ev = TurnR \<and> ev_val ev)"
proof (induction evs arbitrary: inp)
  case Nil
  then show ?case by simp
next
  case (Cons ev evs)
  have one: "turnR (applyPlayerEvent inp ev) \<Longrightarrow> turnR inp \<or> (ev_type ev = TurnR \<and> ev_val ev)"
    by (cases "ev_type ev") (simp_all add: applyPlayerEvent_def)
  from Cons.prems have "turnR (foldl applyPlayerEvent (applyPlayerEvent inp ev) evs)" by simp
  from Cons.IH [OF this] one show ?case
    by auto
qed

lemma body_angle_steer:
  "body_angle (steer inp body) =
     body_angle body + (if turnL inp then - pi / 2 else 0) + (if turnR inp then pi / 2 else 0)"
  by (simp add: steer_def Let_def)

text \<open>
  C7. In every evolve call and for every occupied slot, the working input is the fold
  of this tick's queued events over the vessel's last input with turnL and turnR
  cleared; a turn flag of the working input is set only if the queue holds an event
  setting it; for an eligible vessel the heading jumps by a quarter turn per set flag,
  and for any other vessel the heading is the vessel's.
\<close>

theorem turn_flags_edge_triggered:
  assumes "slot_get (fst (admin_phase bodies t)) i = Some ship"
  shows "\<exists>shs bs body. input_phase c bodies t = Inr (shs, bs) \<and>
     slot_get (snd (admin_phase bodies t)) i = Some body \<and>
     (turnL (working_input ship (player_events (events t) i)) \<longrightarrow>
        (\<exists>ev \<in> set (player_events (events t) i). ev_type ev = TurnL \<and> ev_val ev)) \<and>
     (turnR (working_input ship (player_events (events t) i)) \<longrightarrow>
        (\<exists>ev \<in> set (player_events (events t) i). ev_type ev = TurnR \<and> ev_val ev)) \<and>
     (if eligible c (state t) ship
      then slot_get shs i = Some (ship\<lparr>input := working_input ship (player_events (events t) i)\<rparr>) \<and>
           slot_get bs i =
             Some (air_drag (thrust c (working_input ship (player_events (events t) i))
                     (steer (working_input ship (player_events (events t) i))
                        (sync_body ship body)))) \<and>
           body_angle (steer (working_input ship (player_events (events t) i))
                        (sync_body ship body)) =
             angle ship +
             (if turnL (working_input ship (player_events (events t) i)) then - pi / 2 else 0) +
             (if turnR (working_input ship (player_events (events t) i)) then pi / 2 else 0)
      else slot_get bs i = Some (air_drag (sync_body ship body)) \<and>
           body_angle (air_drag (sync_body ship body)) = angle ship)"
proof -
  let ?evs = "player_events (events t) i"
  from input_phase_slots [of c bodies t] obtain shs bs where
    r: "input_phase c bodies t = Inr (shs, bs)"
    and d: "\<forall>j ship. slot_get (fst (admin_phase bodies t)) j = Some ship \<longrightarrow>
        (\<exists>body. slot_get (snd (admin_phase bodies t)) j = Some body \<and>
           slot_get shs j =
             Some (fst (apply_input c (state t) (player_events (events t) j) ship body)) \<and>
           slot_get bs j =
             Some (snd (apply_input c (state t) (player_events (events t) j) ship body)))"
    by blast
  from d assms obtain body where
    b: "slot_get (snd (admin_phase bodies t)) i = Some body"
    and s1: "slot_get shs i = Some (fst (apply_input c (state t) ?evs ship body))"
    and b1: "slot_get bs i = Some (snd (apply_input c (state t) ?evs ship body))"
    by blast
  have l: "turnL (working_input ship ?evs) \<longrightarrow> (\<exists>ev \<in> set ?evs. ev_type ev = TurnL \<and> ev_val ev)"
    unfolding working_input_def by (auto dest: foldl_applyPlayerEvent_turnL)
  have rr: "turnR (working_input ship ?evs) \<longrightarrow> (\<exists>ev \<in> set ?evs. ev_type ev = TurnR \<and> ev_val ev)"
    unfolding working_input_def by (auto dest: foldl_applyPlayerEvent_turnR)
  have e: "if eligible c (state t) ship
      then slot_get shs i = Some (ship\<lparr>input := working_input ship ?evs\<rparr>) \<and>
           slot_get bs i =
             Some (air_drag (thrust c (working_input ship ?evs)
                     (steer (working_input ship ?evs) (sync_body ship body)))) \<and>
           body_angle (steer (working_input ship ?evs) (sync_body ship body)) =
             angle ship +
             (if turnL (working_input ship ?evs) then - pi / 2 else 0) +
             (if turnR (working_input ship ?evs) then pi / 2 else 0)
      else slot_get bs i = Some (air_drag (sync_body ship body)) \<and>
           body_angle (air_drag (sync_body ship body)) = angle ship"
  proof (cases "eligible c (state t) ship")
    case True
    then show ?thesis using s1 b1
      by (simp add: apply_input_eligible body_angle_steer) (simp add: sync_body_def)
  next
    case False
    then show ?thesis using b1
      by (simp add: apply_input_not_eligible air_drag_def sync_body_def)
  qed
  from r b l rr e show ?thesis by blast
qed

theorem turn_flags_edge_triggered_witness:
  "input_phase demo_collab [] turn_steer =
     Inr ([Some (held_left\<lparr>input := new_PlayerInput\<lparr>gas := True\<rparr>\<rparr>),
           Some (stray\<lparr>input := new_PlayerInput\<lparr>turnR := True\<rparr>\<rparr>)],
          [Some ((still_body (98, 52))\<lparr>body_force := (0, - 300)\<rparr>),
           Some ((still_body (101, 48))\<lparr>body_angle := pi / 2\<rparr>)]) \<and>
   turnL (input held_left) \<and> player_events (events turn_steer) 0 = [] \<and>
   player_events (events turn_steer) 1 = [\<lparr>ev_type = TurnR, ev_val = True\<rparr>]"
proof -
  have a: "slot_get (fst (admin_phase [] turn_steer)) 1 = Some stray"
    by (simp add: turn_steer_def admin_phase_def consume_server_events_def slot_get_def)
  from turn_flags_edge_triggered [OF a, of demo_collab] show ?thesis
    by (simp add: demo_defs evolve_defs turn_steer_def held_left_def)
qed

subsection \<open>The lap-time invariant\<close>

lemma length_add_laptime:
  "k < int (length lts) \<Longrightarrow> length (add_laptime lts k x) = length lts"
  by (auto simp: add_laptime_def Let_def)

lemma vessel_ok_spawn: "vessel_ok (spawn_Ship body sev)"
  by (simp add: vessel_ok_def spawn_Ship_def)

lemma vessel_ok_reset: "vessel_ok (reset_ship i ship)"
  by (simp add: vessel_ok_def reset_ship_def)

lemma vessel_ok_apply_input: "vessel_ok ship \<Longrightarrow> vessel_ok (fst (apply_input c st evs ship body))"
  by (simp add: vessel_ok_def apply_input_def Let_def)

lemma vessel_ok_new_Ship:
  assumes "vessel_ok ship"
  shows "vessel_ok (new_Ship c track dt ship body)"
proof -
  from assms have le: "lap ship \<le> currentLaptime ship"
    and ne: "laptimes ship \<noteq> []"
    and cl: "currentLaptime ship = int (length (laptimes ship)) - 1"
    by (simp_all add: vessel_ok_def)
  have len: "length (timed_laps c dt ship) = length (laptimes ship)"
    using cl by (simp add: timed_laps_def length_add_laptime)
  then have ne': "timed_laps c dt ship \<noteq> []"
    using ne by (metis length_0_conv)
  let ?cp = "case read_checkpoint c track (body_position body) of
      None \<Rightarrow> checkpoint ship | Some n \<Rightarrow> n"
  consider (forward) "checkpoint ship + 1 < ?cp" | (backward) "?cp < checkpoint ship - 1"
    | (near) "checkpoint ship - 1 \<le> ?cp" "?cp \<le> checkpoint ship + 1"
    by linarith
  then show ?thesis
  proof cases
    case forward
    then have "lap (new_Ship c track dt ship body) = lap ship + 1"
      and "currentLaptime (new_Ship c track dt ship body) =
        (if currentLaptime ship < lap ship + 1 then lap ship + 1 else currentLaptime ship)"
      and "laptimes (new_Ship c track dt ship body) =
        (if currentLaptime ship < lap ship + 1 then timed_laps c dt ship @ [Some 0]
         else timed_laps c dt ship)"
      by (simp_all add: new_Ship_def next_ship_def Let_def timed_laps_def)
    with le cl len ne' show ?thesis by (simp add: vessel_ok_def)
  next
    case backward
    then have "lap (new_Ship c track dt ship body) = lap ship - 1"
      and "currentLaptime (new_Ship c track dt ship body) = currentLaptime ship"
      and "laptimes (new_Ship c track dt ship body) = timed_laps c dt ship"
      by (simp_all add: new_Ship_def next_ship_def Let_def timed_laps_def)
    with le cl len ne' show ?thesis by (simp add: vessel_ok_def)
  next
    case near
    then have "lap (new_Ship c track dt ship body) = lap ship"
      and "currentLaptime (new_Ship c track dt ship body) = currentLaptime ship"
      and "laptimes (new_Ship c track dt ship body) = timed_laps c dt ship"
      by (auto simp add: new_Ship_def next_ship_def Let_def timed_laps_def)
    with le cl len ne' show ?thesis by (simp add: vessel_ok_def)
  qed
qed

lemma all_ships_consume_event:
  "all_ships vessel_ok (fst acc) \<Longrightarrow> all_ships vessel_ok (fst (consume_server_event acc sev))"
  by (cases "sev_type sev")
     (auto simp: all_ships_def consume_server_event_def Let_def slot_get_slot_set
        slot_get_slot_delete vessel_ok_spawn split: if_splits)

lemma all_ships_consume:
  "all_ships vessel_ok (fst acc) \<Longrightarrow> all_ships vessel_ok (fst (consume_server_events acc sevs))"
  unfolding consume_server_events_def
proof (induction sevs arbitrary: acc)
  case Nil
  then show ?case by simp
next
  case (Cons sev sevs)
  from Cons.prems have "all_ships vessel_ok (fst (consume_server_event acc sev))"
    by (rule all_ships_consume_event)
  then show ?case using Cons.IH by simp
qed

lemma evolve_keeps_vessel_ok:
  assumes ok: "all_ships vessel_ok (ships t)"
    and ev: "evolve c track bodies dt t = Inr (t', bodies')"
  shows "all_ships vessel_ok (ships t')"
proof -
  have a: "all_ships vessel_ok (fst (admin_phase bodies t))"
    unfolding admin_phase_def using ok by (intro all_ships_consume) simp
  from input_phase_slots [of c bodies t] obtain shs bs where
    r: "input_phase c bodies t = Inr (shs, bs)"
    and n: "\<forall>j. slot_get (fst (admin_phase bodies t)) j = None \<longrightarrow> slot_get shs j = None"
    and d: "\<forall>j ship. slot_get (fst (admin_phase bodies t)) j = Some ship \<longrightarrow>
        (\<exists>body. slot_get (snd (admin_phase bodies t)) j = Some body \<and>
           slot_get shs j =
             Some (fst (apply_input c (state t) (player_events (events t) j) ship body)) \<and>
           slot_get bs j =
             Some (snd (apply_input c (state t) (player_events (events t) j) ship body)))"
    by blast
  have b: "all_ships vessel_ok shs"
    unfolding all_ships_def
  proof (intro allI impI)
    fix i ship assume s: "slot_get shs i = Some ship"
    with n obtain ship0 where s0: "slot_get (fst (admin_phase bodies t)) i = Some ship0"
      by (cases "slot_get (fst (admin_phase bodies t)) i") auto
    with d s obtain body where
      "ship = fst (apply_input c (state t) (player_events (events t) i) ship0 body)" by fastforce
    moreover from a s0 have "vessel_ok ship0" by (auto simp: all_ships_def)
    ultimately show "vessel_ok ship" by (simp add: vessel_ok_apply_input)
  qed
  have sp: "step_phase c bodies dt t = Inr (shs, step_bodies c dt bs)"
    using r by (simp add: step_phase_def)
  from evolve_result [OF sp, of track] ev
  have sl: "slot_get (ships t') i =
        (case slot_get (step_bodies c dt bs) i of
           None \<Rightarrow> None
         | Some body \<Rightarrow>
             map_option (\<lambda>ship. if match_reset t then reset_ship i (new_Ship c track dt ship body)
                                else new_Ship c track dt ship body) (slot_get shs i))" for i
    by auto
  show ?thesis
    unfolding all_ships_def
  proof (intro allI impI)
    fix i ship assume "slot_get (ships t') i = Some ship"
    then have out: "slot_get (ships t') i = Some ship" .
    show "vessel_ok ship"
    proof (cases "slot_get (step_bodies c dt bs) i")
      case None
      with sl [of i] out show ?thesis by simp
    next
      case (Some body)
      show ?thesis
      proof (cases "slot_get shs i")
        case None
        with sl [of i] out Some show ?thesis by simp
      next
        case ship1: (Some ship1)
        with b have "vessel_ok ship1" by (auto simp: all_ships_def)
        moreover from sl [of i] out Some ship1
        have "ship = (if match_reset t then reset_ship i (new_Ship c track dt ship1 body)
               else new_Ship c track dt ship1 body)" by simp
        ultimately show ?thesis by (simp add: vessel_ok_reset vessel_ok_new_Ship)
      qed
    qed
  qed
qed

lemma reachable_vessel_ok: "reachable t \<Longrightarrow> all_ships vessel_ok (ships t)"
proof (induction rule: reachable.induct)
  case (start t)
  then show ?case by (simp add: all_ships_def slot_get_def)
next
  case (server t sevs)
  then show ?case by (simp add: addServerEvent_def)
next
  case (player t shipId evs)
  then show ?case by (simp add: addEvents_def Let_def split: prod.splits)
next
  case (tick t c track bodies dt t' bodies')
  then show ?case by (auto intro: evolve_keeps_vessel_ok)
qed

lemma evolve_turn_first:
  "evolve demo_collab demo_track [] 1000 turn_first =
     Inr (turn_second, [Some ((still_body (98, 52))\<lparr>body_angle := - pi / 2\<rparr>)])"
  by (simp add: demo_defs evolve_defs turn_first_def turn_second_def spawn_ev_def)

text \<open>
  C10. In every Turn reachable by queueing events (spawns among them) and evolving,
  every live vessel has currentLaptime = laptimes.length - 1, a valid index into
  laptimes.
\<close>

theorem currentLaptime_indexes_laptimes:
  assumes "reachable t" and "slot_get (ships t) i = Some ship"
  shows "currentLaptime ship = int (length (laptimes ship)) - 1 \<and>
         0 \<le> currentLaptime ship \<and> nat (currentLaptime ship) < length (laptimes ship)"
proof -
  from reachable_vessel_ok [OF assms(1)] assms(2) have "vessel_ok ship"
    by (auto simp: all_ships_def)
  then have "laptimes ship \<noteq> []"
    and "currentLaptime ship = int (length (laptimes ship)) - 1"
    by (simp_all add: vessel_ok_def)
  moreover from this(1) have "0 < length (laptimes ship)" by simp
  ultimately show ?thesis by linarith
qed

theorem currentLaptime_indexes_laptimes_witness:
  "reachable turn_second \<and>
   (\<exists>ship. slot_get (ships turn_second) 0 = Some ship \<and> currentLaptime ship = 1 \<and>
      length (laptimes ship) = 2)"
proof -
  have "ships turn_first = []" by (simp add: turn_first_def)
  then have "reachable turn_first" by (rule reachable.start)
  then have r: "reachable turn_second" using evolve_turn_first by (rule reachable.tick)
  have s: "slot_get (ships turn_second) 0 =
      Some \<lparr>position = (98, 52), velocity = (0, 0), angle = - pi / 2,
                     username = ''bob'', color = ''blue'', input = new_PlayerInput,
                     checkpoint = 9, lap = 1, currentLaptime = 1,
                     laptimes = [Some 1, Some 0]\<rparr>"
    by (simp add: turn_second_def slot_get_def)
  from currentLaptime_indexes_laptimes [OF r s] r s show ?thesis by simp
qed

end
